theory Spec2Isabelle
  imports Main "HOL-Library.Word"
begin

unbundle bit_operations_syntax

section \<open>JavaScript values\<close>

text \<open>
  A JavaScript string is a sequence of UTF-16 code units. Property keys, type names and
  error messages, which the code builds from ASCII literals, are kept as HOL strings.
\<close>

type_synonym jsstring = "16 word list"

definition ascii :: "string \<Rightarrow> jsstring" where
  "ascii s = map (\<lambda>c. of_nat (of_char c)) s"

datatype symbol = BrandSymbol | OtherSymbol nat

text \<open>
  A Number is carried as its IEEE-754 bit pattern and never interpreted: the code only
  applies \<open>typeof\<close> and \<open>String\<close> to it. An object is the association list of its
  own data properties, in property order.
\<close>

datatype jsval =
    JUndefined
  | JNull
  | JBoolean bool
  | JNumber "64 word"
  | JBigInt int
  | JString jsstring
  | JSymbol symbol
  | JObject "(string \<times> jsval) list"
  | JFunction "(string \<times> jsval) list"

datatype errkind = TypeError | RangeError | SyntaxError | ReferenceError | OtherError

datatype exn = Exn (kind: errkind) (message: string)

fun typeof :: "jsval \<Rightarrow> string" where
  "typeof JUndefined = ''undefined''"
| "typeof JNull = ''object''"
| "typeof (JBoolean b) = ''boolean''"
| "typeof (JNumber x) = ''number''"
| "typeof (JBigInt n) = ''bigint''"
| "typeof (JString s) = ''string''"
| "typeof (JSymbol s) = ''symbol''"
| "typeof (JObject ps) = ''object''"
| "typeof (JFunction ps) = ''function''"

text \<open>The options object of the converters: \<open>opts.prefix\<close>, \<open>opts.context\<close>,
  \<open>opts.treatNullAsEmptyString\<close>; an absent property is \<open>None\<close> or \<open>False\<close>.\<close>

record opts =
  opt_prefix :: "string option"
  opt_context :: "string option"
  treatNullAsEmptyString :: bool

definition no_opts :: opts where
  "no_opts = \<lparr>opt_prefix = None, opt_context = None, treatNullAsEmptyString = False\<rparr>"

text \<open>Truthiness of an optional string property: present and not empty.\<close>

definition truthy :: "string option \<Rightarrow> bool" where
  "truthy s = (case s of None \<Rightarrow> False | Some t \<Rightarrow> t \<noteq> [])"

text \<open>A name between single quotes, as the messages of the code write it.\<close>

definition quoted :: "string \<Rightarrow> string" where
  "quoted s = [CHR 0x27] @ s @ [CHR 0x27]"

text \<open>The brand: \<open>export const brand = Symbol("[[webidl.brand]]")\<close>.\<close>

definition brand :: jsval where
  "brand = JSymbol BrandSymbol"

section \<open>The pattern engine's interface\<close>

text \<open>What the constructor and the matchers exchange with the WebAssembly module.\<close>

datatype URLPatternInput = InputString jsstring | InputInit "(string \<times> jsstring) list"

record parsed_component =
  patternString :: jsstring
  regexpString :: jsstring
  groupNameList :: "jsstring list"

record 'r component = parsed_component +
  regexp :: 'r

text \<open>
  The host environment: everything the two source files call and do not define.
  \<^item> \<open>type_js\<close> and \<open>makeException\<close> are the helpers \<open>type\<close> and \<open>makeException\<close> that
    webidl.js calls without defining them. \<open>type_js env V\<close> is the outcome of evaluating
    \<open>type(V)\<close>; \<open>makeException env E msg opts\<close> is the exception that the statement
    \<open>throw makeException(E, msg, opts)\<close> raises.
  \<^item> \<open>ToString\<close> is \<open>String(V)\<close> on numbers, bigints, symbols, objects and functions, and
    \<open>Get\<close> is a property read on a value that is not a plain object.
  \<^item> \<open>urlpatternParse\<close> and \<open>urlpatternProcessMatchInput\<close> are the two functions imported
    from wasm/wasm.js; \<open>None\<close> is their \<open>null\<close>.
  \<^item> \<open>RegExp env src flags\<close> is \<open>new RegExp(src, flags)\<close> and \<open>RegExp_exec env r s\<close> is
    \<open>r.exec(s)\<close>: the match array (an \<open>undefined\<close> capture is \<open>None\<close>) or \<open>null\<close>.
    \<open>RegExp_after env r s\<close> is the RegExp object \<open>r\<close> as \<open>r.exec(s)\<close> or \<open>r.test(s)\<close>
    leaves it: ECMAScript has them write \<open>lastIndex\<close> when the flag \<open>g\<close> or \<open>y\<close> is set, and
    nothing otherwise.
\<close>

record 'r env =
  type_js :: "jsval \<Rightarrow> exn + string"
  makeException :: "errkind \<Rightarrow> string \<Rightarrow> opts \<Rightarrow> exn"
  ToString :: "jsval \<Rightarrow> exn + jsstring"
  Get :: "jsval \<Rightarrow> string \<Rightarrow> exn + jsval"
  urlpatternParse ::
    "URLPatternInput \<Rightarrow> jsstring option \<Rightarrow> exn + (string \<times> parsed_component) list"
  urlpatternProcessMatchInput ::
    "URLPatternInput \<Rightarrow> jsstring option \<Rightarrow>
       exn + ((string \<times> jsstring) list \<times> jsval list) option"
  RegExp :: "jsstring \<Rightarrow> string \<Rightarrow> exn + 'r"
  RegExp_exec :: "'r \<Rightarrow> jsstring \<Rightarrow> jsstring option list option"
  RegExp_after :: "'r \<Rightarrow> jsstring \<Rightarrow> 'r"

text \<open>\<open>r.test(s)\<close> is \<open>r.exec(s) !== null\<close> (ECMAScript, RegExp.prototype.test).\<close>

definition RegExp_test :: "'r env \<Rightarrow> 'r \<Rightarrow> jsstring \<Rightarrow> bool" where
  "RegExp_test env r s = (RegExp_exec env r s \<noteq> None)"

text \<open>The TypeError of the engine for a property read on \<open>undefined\<close> or \<open>null\<close>.\<close>

definition undefined_read :: "string \<Rightarrow> exn" where
  "undefined_read p =
     Exn TypeError (''Cannot read properties of undefined (reading '' @ quoted p @ '')'')"

section \<open>webidl.js\<close>

subsection \<open>assertBranded and requiredArguments\<close>

text \<open>The receiver of a method, as \<open>assertBranded\<close> and the methods read it:
  \<open>self instanceof URLPattern\<close>, \<open>self[brand]\<close> and \<open>self[_components]\<close>.\<close>

record 'r receiver =
  instanceof_URLPattern :: bool
  brand_slot :: jsval
  components_slot :: "(string \<times> 'r component) list option"

definition assertBranded :: "'r receiver \<Rightarrow> exn + unit" where
  "assertBranded self =
     (if \<not> instanceof_URLPattern self \<or> brand_slot self \<noteq> brand
      then Inl (Exn TypeError ''Illegal invocation'')
      else Inr ())"

text \<open>A count in a template literal: its decimal digits. The parameter \<open>length\<close> of
  requiredArguments is \<open>len\<close> below.\<close>

fun decimal :: "nat \<Rightarrow> string" where
  "decimal n =
     (if n < 10 then [char_of (48 + n)]
      else decimal (n div 10) @ [char_of (48 + n mod 10)])"

definition requiredArguments :: "nat \<Rightarrow> nat \<Rightarrow> opts \<Rightarrow> exn + unit" where
  "requiredArguments len required opts =
     (if len < required then
        (let errMsg =
           (if truthy (opt_prefix opts) then the (opt_prefix opts) @ '': '' else '''')
           @ decimal required @ '' argument''
           @ (if required = 1 then '''' else ''s'')
           @ '' required, but only '' @ decimal len @ '' present.''
         in Inl (Exn TypeError errMsg))
      else Inr ())"

subsection \<open>converters.DOMString and converters.USVString\<close>

text \<open>\<open>String(V)\<close>: the cases ECMAScript fixes by a table, the rest from the host.\<close>

fun String_js :: "'r env \<Rightarrow> jsval \<Rightarrow> exn + jsstring" where
  "String_js env JUndefined = Inr (ascii ''undefined'')"
| "String_js env JNull = Inr (ascii ''null'')"
| "String_js env (JBoolean b) = Inr (ascii (if b then ''true'' else ''false''))"
| "String_js env (JString s) = Inr s"
| "String_js env V = ToString env V"

definition converters_DOMString :: "'r env \<Rightarrow> jsval \<Rightarrow> opts \<Rightarrow> exn + jsstring" where
  "converters_DOMString env V opts =
     (if treatNullAsEmptyString opts \<and> V = JNull then Inr []
      else if typeof V = ''symbol'' then
        Inl (makeException env TypeError
               ''is a symbol, which cannot be converted to a string'' opts)
      else String_js env V)"

text \<open>\<open>String.fromCodePoint\<close>: one code unit below U+10000, a surrogate pair up to
  U+10FFFF, a RangeError above.\<close>

definition fromCodePoint :: "nat \<Rightarrow> exn + jsstring" where
  "fromCodePoint cp =
     (if cp > 0x10FFFF then Inl (Exn RangeError ''Invalid code point'')
      else if cp < 0x10000 then Inr [of_nat cp]
      else Inr [of_nat (0xD800 + (cp - 0x10000) div 0x400),
                of_nat (0xDC00 + (cp - 0x10000) mod 0x400)])"

text \<open>\<open>S.charCodeAt(i)\<close>; both reads of the loop below are guarded by the index being
  smaller than \<open>S.length\<close>.\<close>

definition charCodeAt :: "jsstring \<Rightarrow> nat \<Rightarrow> nat" where
  "charCodeAt S i = unat (S ! i)"

text \<open>The loop \<open>for (let i = 0; i < n; ++i)\<close> of converters.USVString, with \<open>n = S.length\<close>
  and the accumulator \<open>U\<close>; the surrogate-pair branch advances \<open>i\<close> twice.\<close>

function USVString_loop :: "jsstring \<Rightarrow> nat \<Rightarrow> jsstring \<Rightarrow> exn + jsstring" where
  "USVString_loop S i U =
     (if i < length S then
        (let c = charCodeAt S i in
         if c < 0xd800 \<or> c > 0xdfff then
           (case fromCodePoint c of Inl e \<Rightarrow> Inl e
            | Inr s \<Rightarrow> USVString_loop S (i + 1) (U @ s))
         else if 0xdc00 \<le> c \<and> c \<le> 0xdfff then
           (case fromCodePoint 0xfffd of Inl e \<Rightarrow> Inl e
            | Inr s \<Rightarrow> USVString_loop S (i + 1) (U @ s))
         else if i = length S - 1 then
           (case fromCodePoint 0xfffd of Inl e \<Rightarrow> Inl e
            | Inr s \<Rightarrow> USVString_loop S (i + 1) (U @ s))
         else
           (let d = charCodeAt S (i + 1) in
            if 0xdc00 \<le> d \<and> d \<le> 0xdfff then
              (let a = c AND 0x3ff; b = d AND 0x3ff in
               case fromCodePoint (push_bit 15 2 + push_bit 9 2 * a + b) of Inl e \<Rightarrow> Inl e
               | Inr s \<Rightarrow> USVString_loop S (i + 1 + 1) (U @ s))
            else
              (case fromCodePoint 0xfffd of Inl e \<Rightarrow> Inl e
               | Inr s \<Rightarrow> USVString_loop S (i + 1) (U @ s))))
      else Inr U)"
  by pat_completeness auto
termination
  by (relation "measure (\<lambda>(S, i, U). length S - i)") auto

declare USVString_loop.simps [simp del]

declare decimal.simps [simp del]

definition converters_USVString :: "'r env \<Rightarrow> jsval \<Rightarrow> opts \<Rightarrow> exn + jsstring" where
  "converters_USVString env V opts =
     (case converters_DOMString env V opts of
        Inl e \<Rightarrow> Inl e
      | Inr S \<Rightarrow> USVString_loop S 0 [])"

text \<open>UTF-16 well-formedness, and the replacement the converter is meant to perform, both
  by recursion on the code units: a lead surrogate followed by a trail surrogate is a pair,
  any other surrogate is unpaired.\<close>

definition is_lead :: "16 word \<Rightarrow> bool" where
  "is_lead u = (0xD800 \<le> unat u \<and> unat u \<le> 0xDBFF)"

definition is_trail :: "16 word \<Rightarrow> bool" where
  "is_trail u = (0xDC00 \<le> unat u \<and> unat u \<le> 0xDFFF)"

fun well_formed :: "jsstring \<Rightarrow> bool" where
  "well_formed [] = True"
| "well_formed [u] = (\<not> is_lead u \<and> \<not> is_trail u)"
| "well_formed (u # v # rest) =
     (if is_lead u then is_trail v \<and> well_formed rest
      else \<not> is_trail u \<and> well_formed (v # rest))"

fun replace_unpaired :: "jsstring \<Rightarrow> jsstring" where
  "replace_unpaired [] = []"
| "replace_unpaired [u] = [if is_lead u \<or> is_trail u then 0xFFFD else u]"
| "replace_unpaired (u # v # rest) =
     (if is_lead u \<and> is_trail v then u # v # replace_unpaired rest
      else (if is_lead u \<or> is_trail u then 0xFFFD else u) # replace_unpaired (v # rest))"

text \<open>The code point of a surrogate pair (Unicode, UTF-16 decoding).\<close>

definition pair_code_point :: "16 word \<Rightarrow> 16 word \<Rightarrow> nat" where
  "pair_code_point u v = 0x10000 + (unat u - 0xD800) * 0x400 + (unat v - 0xDC00)"

subsection \<open>createDictionaryConverter\<close>

text \<open>A dictionary member \<open>{key, converter, required}\<close>. No member of this repository
  carries a \<open>defaultValue\<close>, so \<open>defaultValues\<close> is the empty object and every converted
  dictionary starts empty.\<close>

record 'r member =
  key :: string
  converter :: "'r env \<Rightarrow> jsval \<Rightarrow> opts \<Rightarrow> exn + jsstring"
  required :: bool

text \<open>\<open>a.key < b.key\<close> on strings: by code units, a proper prefix first.\<close>

fun key_less :: "string \<Rightarrow> string \<Rightarrow> bool" where
  "key_less [] [] = False"
| "key_less [] (y # ys) = True"
| "key_less (x # xs) [] = False"
| "key_less (x # xs) (y # ys) =
     ((of_char x :: nat) < of_char y \<or> (x = y \<and> key_less xs ys))"

text \<open>\<open>allMembers.sort\<close> with the comparator on keys; the sort is stable.\<close>

fun insert_member :: "'r member \<Rightarrow> 'r member list \<Rightarrow> 'r member list" where
  "insert_member m [] = [m]"
| "insert_member m (x # xs) =
     (if key_less (key m) (key x) then m # x # xs else x # insert_member m xs)"

definition sort_members :: "'r member list \<Rightarrow> 'r member list" where
  "sort_members ms = foldl (\<lambda>sorted m. insert_member m sorted) [] ms"

text \<open>\<open>obj[key] = value\<close> on an object kept in property order.\<close>

fun set_property :: "string \<Rightarrow> 'v \<Rightarrow> (string \<times> 'v) list \<Rightarrow> (string \<times> 'v) list" where
  "set_property k v [] = [(k, v)]"
| "set_property k v ((k', v') # ps) =
     (if k = k' then (k, v) # ps else (k', v') # set_property k v ps)"

text \<open>\<open>esDict[key]\<close>: an own data property of a plain object, \<open>undefined\<close> when absent;
  the engine's TypeError on \<open>undefined\<close> and \<open>null\<close>.\<close>

fun js_get :: "'r env \<Rightarrow> jsval \<Rightarrow> string \<Rightarrow> exn + jsval" where
  "js_get env (JObject ps) k = Inr (case map_of ps k of None \<Rightarrow> JUndefined | Some v \<Rightarrow> v)"
| "js_get env JUndefined k = Inl (undefined_read k)"
| "js_get env JNull k = Inl (undefined_read k)"
| "js_get env V k = Get env V k"

text \<open>The loop \<open>for (const member of allMembers)\<close> of the returned converter.\<close>

fun dictionary_members ::
  "'r env \<Rightarrow> string \<Rightarrow> string \<Rightarrow> jsval \<Rightarrow> opts \<Rightarrow> 'r member list \<Rightarrow>
     (string \<times> jsstring) list \<Rightarrow> exn + (string \<times> jsstring) list" where
  "dictionary_members env name typeV V opts [] idlDict = Inr idlDict"
| "dictionary_members env name typeV V opts (member # rest) idlDict =
     (case (if typeV = ''Undefined'' \<or> typeV = ''Null'' then Inr JUndefined
            else js_get env V (key member)) of
        Inl e \<Rightarrow> Inl e
      | Inr esMemberValue \<Rightarrow>
          if esMemberValue \<noteq> JUndefined then
            (let context = quoted (key member) @ '' of '' @ quoted name
                   @ (if truthy (opt_context opts)
                      then '' ('' @ the (opt_context opts) @ '')'' else [])
             in case converter member env esMemberValue (opts\<lparr>opt_context := Some context\<rparr>) of
                  Inl e \<Rightarrow> Inl e
                | Inr idlMemberValue \<Rightarrow>
                    dictionary_members env name typeV V opts rest
                      (set_property (key member) idlMemberValue idlDict))
          else if required member then
            Inl (makeException env TypeError
                   (''can not be converted to '' @ quoted name @ '' because ''
                    @ quoted (key member) @ '' is required in '' @ quoted name @ ''.'') opts)
          else dictionary_members env name typeV V opts rest idlDict)"

text \<open>The converter returned by createDictionaryConverter, for the captured \<open>name\<close>,
  \<open>allMembers\<close> and \<open>hasRequiredKey\<close>.\<close>

definition dictionary_converter ::
  "string \<Rightarrow> 'r member list \<Rightarrow> bool \<Rightarrow> 'r env \<Rightarrow> jsval \<Rightarrow> opts \<Rightarrow>
     exn + (string \<times> jsstring) list" where
  "dictionary_converter name allMembers hasRequiredKey env V opts =
     (case type_js env V of
        Inl e \<Rightarrow> Inl e
      | Inr typeV \<Rightarrow>
          if typeV \<noteq> ''Undefined'' \<and> typeV \<noteq> ''Null'' \<and> typeV \<noteq> ''Object'' then
            Inl (makeException env TypeError ''can not be converted to a dictionary'' opts)
          else
            (let idlDict = [] in
             if (V = JUndefined \<or> V = JNull) \<and> \<not> hasRequiredKey then Inr idlDict
             else dictionary_members env name typeV V opts allMembers idlDict))"

definition createDictionaryConverter ::
  "string \<Rightarrow> 'r member list list \<Rightarrow> 'r env \<Rightarrow> jsval \<Rightarrow> opts \<Rightarrow>
     exn + (string \<times> jsstring) list" where
  "createDictionaryConverter name dictionaries =
     (let hasRequiredKey = list_ex required (concat dictionaries);
          allMembers = sort_members (concat dictionaries)
      in dictionary_converter name allMembers hasRequiredKey)"

subsection \<open>converters.URLPatternInit and converters.URLPatternInput\<close>

definition USVString_member :: "string \<Rightarrow> 'r member" where
  "USVString_member k = \<lparr>key = k, converter = converters_USVString, required = False\<rparr>"

definition converters_URLPatternInit ::
  "'r env \<Rightarrow> jsval \<Rightarrow> opts \<Rightarrow> exn + (string \<times> jsstring) list" where
  "converters_URLPatternInit =
     createDictionaryConverter ''URLPatternInit''
       [[USVString_member ''protocol'',
         USVString_member ''username'',
         USVString_member ''password'',
         USVString_member ''hostname'',
         USVString_member ''port'',
         USVString_member ''pathname'',
         USVString_member ''search'',
         USVString_member ''hash'',
         USVString_member ''baseURL'']]"

definition converters_URLPatternInput ::
  "'r env \<Rightarrow> jsval \<Rightarrow> opts \<Rightarrow> exn + URLPatternInput" where
  "converters_URLPatternInput env V opts =
     (if typeof V = ''object'' then
        (case converters_URLPatternInit env V opts of
           Inl e \<Rightarrow> Inl e | Inr d \<Rightarrow> Inr (InputInit d))
      else
        (case converters_USVString env V opts of
           Inl e \<Rightarrow> Inl e | Inr s \<Rightarrow> Inr (InputString s)))"

section \<open>mod.ts: the class URLPattern\<close>

text \<open>The arguments of a call are the list \<open>arguments\<close>; a parameter beyond its length is
  \<open>undefined\<close>, and so is \<open>baseURL\<close> by its default.\<close>

definition arg :: "jsval list \<Rightarrow> nat \<Rightarrow> jsval" where
  "arg args i = (if i < length args then args ! i else JUndefined)"

text \<open>The argument checks that the constructor, \<open>test\<close> and \<open>exec\<close> each spell out, for
  their own \<open>prefix\<close>: requiredArguments, the conversion of \<open>input\<close>, and the conversion of
  \<open>baseURL\<close> when it is not \<open>undefined\<close>.\<close>

definition convert_arguments ::
  "'r env \<Rightarrow> string \<Rightarrow> jsval list \<Rightarrow> exn + (URLPatternInput \<times> jsstring option)" where
  "convert_arguments env prefix args =
     (case requiredArguments (length args) 1 (no_opts\<lparr>opt_prefix := Some prefix\<rparr>) of
        Inl e \<Rightarrow> Inl e
      | Inr _ \<Rightarrow>
          (case converters_URLPatternInput env (arg args 0)
                  \<lparr>opt_prefix = Some prefix, opt_context = Some ''Argument 1'',
                   treatNullAsEmptyString = False\<rparr> of
             Inl e \<Rightarrow> Inl e
           | Inr input \<Rightarrow>
               if arg args 1 \<noteq> JUndefined then
                 (case converters_USVString env (arg args 1)
                         \<lparr>opt_prefix = Some prefix, opt_context = Some ''Argument 2'',
                          treatNullAsEmptyString = False\<rparr> of
                    Inl e \<Rightarrow> Inl e
                  | Inr baseURL \<Rightarrow> Inr (input, Some baseURL))
               else Inr (input, None)))"

subsection \<open>The constructor\<close>

text \<open>The loop \<open>for (const key of Object.keys(components))\<close>: each component gets its
  \<open>regexp\<close>, and an exception of \<open>new RegExp\<close> is caught and thrown again as a TypeError.\<close>

fun compile_components ::
  "'r env \<Rightarrow> string \<Rightarrow> (string \<times> parsed_component) list \<Rightarrow>
     exn + (string \<times> 'r component) list" where
  "compile_components env prefix [] = Inr []"
| "compile_components env prefix ((k, c) # rest) =
     (case RegExp env (regexpString c) ''u'' of
        Inl e \<Rightarrow> Inl (Exn TypeError (prefix @ '': '' @ k @ '' is invalid; '' @ message e))
      | Inr r \<Rightarrow>
          (case compile_components env prefix rest of
             Inl e \<Rightarrow> Inl e
           | Inr compiled \<Rightarrow>
               Inr ((k, \<lparr>patternString = patternString c, regexpString = regexpString c,
                         groupNameList = groupNameList c, regexp = r\<rparr>) # compiled)))"

definition URLPattern_constructor :: "'r env \<Rightarrow> jsval list \<Rightarrow> exn + 'r receiver" where
  "URLPattern_constructor env args =
     (let prefix = ''Failed to construct '' @ quoted ''URLPattern'' in
      case convert_arguments env prefix args of
        Inl e \<Rightarrow> Inl e
      | Inr (input, baseURL) \<Rightarrow>
          (case urlpatternParse env input baseURL of
             Inl e \<Rightarrow> Inl e
           | Inr components \<Rightarrow>
               (case compile_components env prefix components of
                  Inl e \<Rightarrow> Inl e
                | Inr compiled \<Rightarrow>
                    Inr \<lparr>instanceof_URLPattern = True, brand_slot = brand,
                         components_slot = Some compiled\<rparr>)))"

subsection \<open>The property getters\<close>

text \<open>\<open>this[_components].k.patternString\<close>.\<close>

definition component_patternString :: "'r receiver \<Rightarrow> string \<Rightarrow> exn + jsstring" where
  "component_patternString this k =
     (case components_slot this of
        None \<Rightarrow> Inl (undefined_read k)
      | Some components \<Rightarrow>
          (case map_of components k of
             None \<Rightarrow> Inl (undefined_read ''patternString'')
           | Some c \<Rightarrow> Inr (patternString c)))"

definition URLPattern_protocol :: "'r receiver \<Rightarrow> exn + jsstring" where
  "URLPattern_protocol this =
     (case assertBranded this of Inl e \<Rightarrow> Inl e
      | Inr _ \<Rightarrow> component_patternString this ''protocol'')"

definition URLPattern_username :: "'r receiver \<Rightarrow> exn + jsstring" where
  "URLPattern_username this =
     (case assertBranded this of Inl e \<Rightarrow> Inl e
      | Inr _ \<Rightarrow> component_patternString this ''username'')"

definition URLPattern_password :: "'r receiver \<Rightarrow> exn + jsstring" where
  "URLPattern_password this =
     (case assertBranded this of Inl e \<Rightarrow> Inl e
      | Inr _ \<Rightarrow> component_patternString this ''password'')"

definition URLPattern_hostname :: "'r receiver \<Rightarrow> exn + jsstring" where
  "URLPattern_hostname this =
     (case assertBranded this of Inl e \<Rightarrow> Inl e
      | Inr _ \<Rightarrow> component_patternString this ''hostname'')"

definition URLPattern_port :: "'r receiver \<Rightarrow> exn + jsstring" where
  "URLPattern_port this =
     (case assertBranded this of Inl e \<Rightarrow> Inl e
      | Inr _ \<Rightarrow> component_patternString this ''port'')"

definition URLPattern_pathname :: "'r receiver \<Rightarrow> exn + jsstring" where
  "URLPattern_pathname this =
     (case assertBranded this of Inl e \<Rightarrow> Inl e
      | Inr _ \<Rightarrow> component_patternString this ''pathname'')"

definition URLPattern_search :: "'r receiver \<Rightarrow> exn + jsstring" where
  "URLPattern_search this =
     (case assertBranded this of Inl e \<Rightarrow> Inl e
      | Inr _ \<Rightarrow> component_patternString this ''search'')"

definition URLPattern_hash :: "'r receiver \<Rightarrow> exn + jsstring" where
  "URLPattern_hash this =
     (case assertBranded this of Inl e \<Rightarrow> Inl e
      | Inr _ \<Rightarrow> component_patternString this ''hash'')"

text \<open>The eight component names, in the order of the getters.\<close>

definition component_keys :: "string list" where
  "component_keys =
     [''protocol'', ''username'', ''password'', ''hostname'', ''port'', ''pathname'',
      ''search'', ''hash'']"

definition getters :: "'r receiver \<Rightarrow> (exn + jsstring) list" where
  "getters this =
     [URLPattern_protocol this, URLPattern_username this, URLPattern_password this,
      URLPattern_hostname this, URLPattern_port this, URLPattern_pathname this,
      URLPattern_search this, URLPattern_hash this]"

subsection \<open>test\<close>

text \<open>The loop \<open>for (const key of Object.keys(values))\<close> of \<open>test\<close>. Besides the outcome
  it returns the keys whose \<open>regexp.test\<close> was called, in call order.\<close>

fun test_components ::
  "'r env \<Rightarrow> (string \<times> 'r component) list option \<Rightarrow> (string \<times> jsstring) list \<Rightarrow>
     string list \<times> (exn + bool)" where
  "test_components env components [] = ([], Inr True)"
| "test_components env components ((k, v) # rest) =
     (case components of
        None \<Rightarrow> ([], Inl (undefined_read k))
      | Some cs \<Rightarrow>
          (case map_of cs k of
             None \<Rightarrow> ([], Inl (undefined_read ''regexp''))
           | Some c \<Rightarrow>
               if \<not> RegExp_test env (regexp c) v then ([k], Inr False)
               else (case test_components env components rest of
                       (tested, outcome) \<Rightarrow> (k # tested, outcome))))"

definition URLPattern_test_run ::
  "'r env \<Rightarrow> 'r receiver \<Rightarrow> jsval list \<Rightarrow> string list \<times> (exn + bool)" where
  "URLPattern_test_run env this args =
     (case assertBranded this of
        Inl e \<Rightarrow> ([], Inl e)
      | Inr _ \<Rightarrow>
          (let prefix = ''Failed to execute '' @ quoted ''test'' @ '' on '' @ quoted ''URLPattern'' in
           case convert_arguments env prefix args of
             Inl e \<Rightarrow> ([], Inl e)
           | Inr (input, baseURL) \<Rightarrow>
               (case urlpatternProcessMatchInput env input baseURL of
                  Inl e \<Rightarrow> ([], Inl e)
                | Inr None \<Rightarrow> ([], Inr False)
                | Inr (Some (values, inputs)) \<Rightarrow>
                    test_components env (components_slot this) values)))"

definition URLPattern_test :: "'r env \<Rightarrow> 'r receiver \<Rightarrow> jsval list \<Rightarrow> exn + bool" where
  "URLPattern_test env this args = snd (URLPattern_test_run env this args)"

definition URLPattern_test_tested :: "'r env \<Rightarrow> 'r receiver \<Rightarrow> jsval list \<Rightarrow> string list" where
  "URLPattern_test_tested env this args = fst (URLPattern_test_run env this args)"

subsection \<open>exec\<close>

text \<open>A component result \<open>{input, groups}\<close>; \<open>groups\<close> is read as a finite map from
  group names to strings.\<close>

record URLPatternComponentResult =
  component_input :: jsstring
  component_groups :: "jsstring \<Rightarrow> jsstring option"

text \<open>The properties of the result object: \<open>inputs\<close>, and one component result per key.\<close>

datatype result_field = InputsField "jsval list" | ComponentField URLPatternComponentResult

type_synonym URLPatternResult = "(string \<times> result_field) list"

text \<open>\<open>match[j] ?? ""\<close>: the empty string for a capture that is \<open>undefined\<close> or beyond the
  match array.\<close>

definition capture :: "jsstring option list \<Rightarrow> nat \<Rightarrow> jsstring" where
  "capture match j =
     (if j < length match then (case match ! j of None \<Rightarrow> [] | Some s \<Rightarrow> s) else [])"

text \<open>\<open>groupNameList.map((name, i) => [name, match[i + 1] ?? ""])\<close>.\<close>

definition groupEntries_of :: "jsstring list \<Rightarrow> jsstring option list \<Rightarrow> (jsstring \<times> jsstring) list" where
  "groupEntries_of names match =
     map (\<lambda>(i, name). (name, capture match (i + 1))) (enumerate 0 names)"

text \<open>\<open>Object.fromEntries\<close>: a later entry of the same name wins.\<close>

definition fromEntries :: "(jsstring \<times> jsstring) list \<Rightarrow> jsstring \<Rightarrow> jsstring option" where
  "fromEntries entries = map_of (rev entries)"

fun exec_components ::
  "'r env \<Rightarrow> (string \<times> 'r component) list option \<Rightarrow> (string \<times> jsstring) list \<Rightarrow>
     URLPatternResult \<Rightarrow> exn + URLPatternResult option" where
  "exec_components env components [] result = Inr (Some result)"
| "exec_components env components ((k, v) # rest) result =
     (case components of
        None \<Rightarrow> Inl (undefined_read k)
      | Some cs \<Rightarrow>
          (case map_of cs k of
             None \<Rightarrow> Inl (undefined_read ''regexp'')
           | Some c \<Rightarrow>
               (case RegExp_exec env (regexp c) v of
                  None \<Rightarrow> Inr None
                | Some match \<Rightarrow>
                    (let groupEntries = groupEntries_of (groupNameList c) match;
                         groups = fromEntries groupEntries
                     in exec_components env components rest
                          (set_property k (ComponentField \<lparr>component_input = v, component_groups = groups\<rparr>)
                             result)))))"

text \<open>\<open>if (inputs[1] === null) inputs.pop()\<close>.\<close>

definition pop_null :: "jsval list \<Rightarrow> jsval list" where
  "pop_null inputs = (if 1 < length inputs \<and> inputs ! 1 = JNull then butlast inputs else inputs)"

definition URLPattern_exec ::
  "'r env \<Rightarrow> 'r receiver \<Rightarrow> jsval list \<Rightarrow> exn + URLPatternResult option" where
  "URLPattern_exec env this args =
     (case assertBranded this of
        Inl e \<Rightarrow> Inl e
      | Inr _ \<Rightarrow>
          (let prefix = ''Failed to execute '' @ quoted ''exec'' @ '' on '' @ quoted ''URLPattern'' in
           case convert_arguments env prefix args of
             Inl e \<Rightarrow> Inl e
           | Inr (input, baseURL) \<Rightarrow>
               (case urlpatternProcessMatchInput env input baseURL of
                  Inl e \<Rightarrow> Inl e
                | Inr None \<Rightarrow> Inr None
                | Inr (Some (values, inputs)) \<Rightarrow>
                    (let result = [(''inputs'', InputsField (pop_null inputs))]
                     in exec_components env (components_slot this) values result))))"

subsection \<open>Calls on an instance\<close>

text \<open>
  The two methods once more, as calls that take the instance and give their outcome and
  the instance after the call. The one statement of \<open>test\<close> and of \<open>exec\<close> that can write
  to an object of the instance is the call \<open>regexp.test(...)\<close> or \<open>regexp.exec(...)\<close>: it
  leaves the RegExp object of the component as the engine leaves it, \<open>RegExp_after\<close>. The
  constructor makes one RegExp object per component, so no two components share one. The
  other writes of \<open>exec\<close>, \<open>inputs.pop()\<close> and \<open>result[key] = ...\<close>, go to the array the
  pattern module returned for this call and to the object \<open>exec\<close> has just made.
\<close>

fun test_components_state ::
  "'r env \<Rightarrow> (string \<times> 'r component) list option \<Rightarrow> (string \<times> jsstring) list \<Rightarrow>
     (exn + bool) \<times> (string \<times> 'r component) list option" where
  "test_components_state env components [] = (Inr True, components)"
| "test_components_state env components ((k, v) # rest) =
     (case components of
        None \<Rightarrow> (Inl (undefined_read k), components)
      | Some cs \<Rightarrow>
          (case map_of cs k of
             None \<Rightarrow> (Inl (undefined_read ''regexp''), components)
           | Some c \<Rightarrow>
               (let matched = RegExp_test env (regexp c) v;
                    components' =
                      Some (set_property k (c\<lparr>regexp := RegExp_after env (regexp c) v\<rparr>) cs)
                in if \<not> matched then (Inr False, components')
                   else test_components_state env components' rest)))"

definition URLPattern_test_state ::
  "'r env \<Rightarrow> 'r receiver \<Rightarrow> jsval list \<Rightarrow> (exn + bool) \<times> 'r receiver" where
  "URLPattern_test_state env this args =
     (case assertBranded this of
        Inl e \<Rightarrow> (Inl e, this)
      | Inr _ \<Rightarrow>
          (let prefix = ''Failed to execute '' @ quoted ''test'' @ '' on '' @ quoted ''URLPattern'' in
           case convert_arguments env prefix args of
             Inl e \<Rightarrow> (Inl e, this)
           | Inr (input, baseURL) \<Rightarrow>
               (case urlpatternProcessMatchInput env input baseURL of
                  Inl e \<Rightarrow> (Inl e, this)
                | Inr None \<Rightarrow> (Inr False, this)
                | Inr (Some (values, inputs)) \<Rightarrow>
                    (case test_components_state env (components_slot this) values of
                       (out, components') \<Rightarrow>
                         (out, this\<lparr>components_slot := components'\<rparr>)))))"

fun exec_components_state ::
  "'r env \<Rightarrow> (string \<times> 'r component) list option \<Rightarrow> (string \<times> jsstring) list \<Rightarrow>
     URLPatternResult \<Rightarrow>
     (exn + URLPatternResult option) \<times> (string \<times> 'r component) list option" where
  "exec_components_state env components [] result = (Inr (Some result), components)"
| "exec_components_state env components ((k, v) # rest) result =
     (case components of
        None \<Rightarrow> (Inl (undefined_read k), components)
      | Some cs \<Rightarrow>
          (case map_of cs k of
             None \<Rightarrow> (Inl (undefined_read ''regexp''), components)
           | Some c \<Rightarrow>
               (let match = RegExp_exec env (regexp c) v;
                    components' =
                      Some (set_property k (c\<lparr>regexp := RegExp_after env (regexp c) v\<rparr>) cs)
                in case match of
                     None \<Rightarrow> (Inr None, components')
                   | Some m \<Rightarrow>
                       (let groupEntries = groupEntries_of (groupNameList c) m;
                            groups = fromEntries groupEntries
                        in exec_components_state env components' rest
                             (set_property k
                                (ComponentField
                                   \<lparr>component_input = v, component_groups = groups\<rparr>)
                                result)))))"

definition URLPattern_exec_state ::
  "'r env \<Rightarrow> 'r receiver \<Rightarrow> jsval list \<Rightarrow>
     (exn + URLPatternResult option) \<times> 'r receiver" where
  "URLPattern_exec_state env this args =
     (case assertBranded this of
        Inl e \<Rightarrow> (Inl e, this)
      | Inr _ \<Rightarrow>
          (let prefix = ''Failed to execute '' @ quoted ''exec'' @ '' on '' @ quoted ''URLPattern'' in
           case convert_arguments env prefix args of
             Inl e \<Rightarrow> (Inl e, this)
           | Inr (input, baseURL) \<Rightarrow>
               (case urlpatternProcessMatchInput env input baseURL of
                  Inl e \<Rightarrow> (Inl e, this)
                | Inr None \<Rightarrow> (Inr None, this)
                | Inr (Some (values, inputs)) \<Rightarrow>
                    (let result = [(''inputs'', InputsField (pop_null inputs))]
                     in case exec_components_state env (components_slot this) values result of
                          (out, components') \<Rightarrow>
                            (out, this\<lparr>components_slot := components'\<rparr>)))))"

datatype call = Test "jsval list" | Exec "jsval list"

datatype outcome = TestOutcome "exn + bool" | ExecOutcome "exn + URLPatternResult option"

fun invoke :: "'r env \<Rightarrow> 'r receiver \<Rightarrow> call \<Rightarrow> outcome \<times> 'r receiver" where
  "invoke env this (Test args) =
     (case URLPattern_test_state env this args of (out, this') \<Rightarrow> (TestOutcome out, this'))"
| "invoke env this (Exec args) =
     (case URLPattern_exec_state env this args of (out, this') \<Rightarrow> (ExecOutcome out, this'))"

fun invoke_all :: "'r env \<Rightarrow> 'r receiver \<Rightarrow> call list \<Rightarrow> outcome list \<times> 'r receiver" where
  "invoke_all env this [] = ([], this)"
| "invoke_all env this (c # cs) =
     (case invoke env this c of
        (out, this') \<Rightarrow>
          (case invoke_all env this' cs of (outs, this'') \<Rightarrow> (out # outs, this'')))"

section \<open>A small host environment\<close>

text \<open>
  An environment small enough to evaluate, used for the closed examples. As in the two
  source files, \<open>type\<close> and \<open>makeException\<close> are not defined: evaluating either raises a
  ReferenceError. Its pattern module accepts a path pattern relative to the base
  \<open>https://example.com\<close>, made of lower-case letters, digits, \<open>/\<close>, \<open>.\<close> and \<open>-\<close> with an
  optional final wildcard \<open>*\<close>, and resolves a path of such characters against that
  base. Its expression engine knows the two forms that module generates, \<open>^literal$\<close> and
  \<open>^literal(.*)$\<close>, and keeps no state in a compiled expression.
\<close>

datatype sample_regexp = Literal jsstring | Prefix jsstring

fun unescape :: "jsstring \<Rightarrow> jsstring option" where
  "unescape [] = Some []"
| "unescape [c] = (if c = 0x5C \<or> List.member (ascii ''^$.*+?()[]{}|/'') c then None else Some [c])"
| "unescape (c # d # rest) =
     (if c = 0x5C then map_option ((#) d) (unescape rest)
      else if List.member (ascii ''^$.*+?()[]{}|/'') c then None
      else map_option ((#) c) (unescape (d # rest)))"

definition sample_RegExp :: "jsstring \<Rightarrow> string \<Rightarrow> exn + sample_regexp" where
  "sample_RegExp src flags =
     (if 6 \<le> length src \<and> hd src = 0x5E \<and> drop (length src - 5) src = ascii ''(.*)$'' then
        (case unescape (take (length src - 6) (tl src)) of
           Some l \<Rightarrow> Inr (Prefix l)
         | None \<Rightarrow> Inl (Exn SyntaxError ''Invalid regular expression''))
      else if 2 \<le> length src \<and> hd src = 0x5E \<and> last src = 0x24 then
        (case unescape (butlast (tl src)) of
           Some l \<Rightarrow> Inr (Literal l)
         | None \<Rightarrow> Inl (Exn SyntaxError ''Invalid regular expression''))
      else Inl (Exn SyntaxError ''Invalid regular expression''))"

fun sample_RegExp_exec :: "sample_regexp \<Rightarrow> jsstring \<Rightarrow> jsstring option list option" where
  "sample_RegExp_exec (Literal l) s = (if s = l then Some [Some s] else None)"
| "sample_RegExp_exec (Prefix l) s =
     (if take (length l) s = l then Some [Some s, Some (drop (length l) s)] else None)"

definition plain :: "16 word \<Rightarrow> bool" where
  "plain c = ((0x61 \<le> c \<and> c \<le> 0x7A) \<or> (0x30 \<le> c \<and> c \<le> 0x39)
              \<or> c = 0x2F \<or> c = 0x2E \<or> c = 0x2D)"

fun escape_regexp :: "jsstring \<Rightarrow> jsstring" where
  "escape_regexp [] = []"
| "escape_regexp (c # cs) =
     (if c = 0x2F \<or> c = 0x2E then [0x5C, c] else [c]) @ escape_regexp cs"

text \<open>A component pattern: a literal, or a literal followed by the wildcard, whose group
  gets the name \<open>0\<close>.\<close>

definition sample_component :: "jsstring \<Rightarrow> exn + parsed_component" where
  "sample_component p =
     (if p \<noteq> [] \<and> last p = 0x2A \<and> list_all plain (butlast p) then
        Inr \<lparr>patternString = p,
             regexpString = [0x5E] @ escape_regexp (butlast p) @ ascii ''(.*)$'',
             groupNameList = [ascii ''0'']\<rparr>
      else if list_all plain p then
        Inr \<lparr>patternString = p, regexpString = [0x5E] @ escape_regexp p @ [0x24],
             groupNameList = []\<rparr>
      else Inl (Exn TypeError ''unsupported pattern''))"

fun sample_components ::
  "(string \<times> jsstring) list \<Rightarrow> exn + (string \<times> parsed_component) list" where
  "sample_components [] = Inr []"
| "sample_components ((k, p) # rest) =
     (case sample_component p of
        Inl e \<Rightarrow> Inl e
      | Inr c \<Rightarrow>
          (case sample_components rest of
             Inl e \<Rightarrow> Inl e
           | Inr cs \<Rightarrow> Inr ((k, c) # cs)))"

text \<open>The path \<open>p\<close> against \<open>https://example.com\<close>.\<close>

definition against_base :: "jsstring \<Rightarrow> jsstring" where
  "against_base p = (if hd p = 0x2F then p else 0x2F # p)"

text \<open>The component patterns of a path pattern relative to the base: what the pattern does
  not give is taken from the base or is the wildcard.\<close>

definition sample_patterns :: "jsstring \<Rightarrow> (string \<times> jsstring) list" where
  "sample_patterns p =
     [(''protocol'', ascii ''https''), (''username'', ascii ''*''), (''password'', ascii ''*''),
      (''hostname'', ascii ''example.com''), (''port'', []),
      (''pathname'', against_base p), (''search'', ascii ''*''), (''hash'', ascii ''*'')]"

text \<open>The components of a path resolved against the base.\<close>

definition sample_resolve :: "jsstring \<Rightarrow> (string \<times> jsstring) list" where
  "sample_resolve p =
     [(''protocol'', ascii ''https''), (''username'', []), (''password'', []),
      (''hostname'', ascii ''example.com''), (''port'', []),
      (''pathname'', against_base p), (''search'', []), (''hash'', [])]"

fun sample_parse ::
  "URLPatternInput \<Rightarrow> jsstring option \<Rightarrow> exn + (string \<times> parsed_component) list" where
  "sample_parse (InputString p) (Some b) =
     (if b = ascii ''https://example.com'' \<and> p \<noteq> []
      then sample_components (sample_patterns p)
      else Inl (Exn TypeError ''unsupported pattern''))"
| "sample_parse (InputString p) None = Inl (Exn TypeError ''a relative pattern needs a base URL'')"
| "sample_parse (InputInit d) b = Inl (Exn TypeError ''unsupported pattern'')"

fun sample_process ::
  "URLPatternInput \<Rightarrow> jsstring option \<Rightarrow>
     exn + ((string \<times> jsstring) list \<times> jsval list) option" where
  "sample_process (InputString s) (Some b) =
     (if b = ascii ''https://example.com'' \<and> s \<noteq> [] \<and> list_all plain s
      then Inr (Some (sample_resolve s, [JString s, JString b]))
      else Inr None)"
| "sample_process (InputString s) None = Inr None"
| "sample_process (InputInit d) b = Inl (Exn TypeError ''unsupported input'')"

fun sample_ToString :: "jsval \<Rightarrow> exn + jsstring" where
  "sample_ToString (JObject ps) = Inr (ascii ''[object Object]'')"
| "sample_ToString V = Inl (Exn TypeError ''conversion outside this environment'')"

definition sample_env :: "sample_regexp env" where
  "sample_env =
     \<lparr>type_js = (\<lambda>V. Inl (Exn ReferenceError ''type is not defined'')),
      makeException = (\<lambda>E msg opts. Exn ReferenceError ''makeException is not defined''),
      ToString = sample_ToString, Get = (\<lambda>V k. Inr JUndefined),
      urlpatternParse = sample_parse, urlpatternProcessMatchInput = sample_process,
      RegExp = sample_RegExp, RegExp_exec = sample_RegExp_exec,
      RegExp_after = (\<lambda>r s. r)\<rparr>"

text \<open>The same environment with an engine that rejects every expression.\<close>

definition strict_env :: "sample_regexp env" where
  "strict_env =
     sample_env\<lparr>RegExp := (\<lambda>src flags. Inl (Exn SyntaxError ''Invalid regular expression''))\<rparr>"

text \<open>The same environment with an engine that writes to a RegExp object at every call:
  after \<open>r.exec(s)\<close> the object is the expression of the literal \<open>s\<close>.\<close>

definition writing_env :: "sample_regexp env" where
  "writing_env = sample_env\<lparr>RegExp_after := (\<lambda>r s. Literal s)\<rparr>"

text \<open>\<open>new URLPattern("/books/*", "https://example.com")\<close> and
  \<open>new URLPattern(true, "https://example.com")\<close>.\<close>

definition books_args :: "jsval list" where
  "books_args = [JString (ascii ''/books/*''), JString (ascii ''https://example.com'')]"

definition true_args :: "jsval list" where
  "true_args = [JBoolean True, JString (ascii ''https://example.com'')]"

text \<open>The instances the two constructions give in the small environment.\<close>

definition wildcard_component :: "sample_regexp component" where
  "wildcard_component =
     \<lparr>patternString = ascii ''*'', regexpString = ascii ''^(.*)$'',
      groupNameList = [ascii ''0''], regexp = Prefix []\<rparr>"

definition literal_component :: "jsstring \<Rightarrow> sample_regexp component" where
  "literal_component p =
     \<lparr>patternString = p, regexpString = [0x5E] @ escape_regexp p @ [0x24],
      groupNameList = [], regexp = Literal p\<rparr>"

definition books_pattern :: "sample_regexp receiver" where
  "books_pattern =
     \<lparr>instanceof_URLPattern = True, brand_slot = brand,
      components_slot = Some
        [(''protocol'', literal_component (ascii ''https'')),
         (''username'', wildcard_component), (''password'', wildcard_component),
         (''hostname'', literal_component (ascii ''example.com'')),
         (''port'', literal_component []),
         (''pathname'',
          \<lparr>patternString = ascii ''/books/*'',
           regexpString = [0x5E] @ escape_regexp (ascii ''/books/'') @ ascii ''(.*)$'',
           groupNameList = [ascii ''0''], regexp = Prefix (ascii ''/books/'')\<rparr>),
         (''search'', wildcard_component), (''hash'', wildcard_component)]\<rparr>"

definition true_pattern :: "sample_regexp receiver" where
  "true_pattern =
     \<lparr>instanceof_URLPattern = True, brand_slot = brand,
      components_slot = Some
        [(''protocol'', literal_component (ascii ''https'')),
         (''username'', wildcard_component), (''password'', wildcard_component),
         (''hostname'', literal_component (ascii ''example.com'')),
         (''port'', literal_component []),
         (''pathname'', literal_component (ascii ''/true'')),
         (''search'', wildcard_component), (''hash'', wildcard_component)]\<rparr>"

text \<open>A receiver that passes the brand check and has no components: an object with
  \<open>URLPattern.prototype\<close> on its prototype chain and the exported \<open>brand\<close> stored under
  the exported \<open>brand\<close> key.\<close>

definition forged :: "sample_regexp receiver" where
  "forged = \<lparr>instanceof_URLPattern = True, brand_slot = brand, components_slot = None\<rparr>"

text \<open>A plain object as receiver.\<close>

definition plain_object :: "sample_regexp receiver" where
  "plain_object =
     \<lparr>instanceof_URLPattern = False, brand_slot = JUndefined, components_slot = None\<rparr>"

section \<open>Notions used in the statements\<close>

text \<open>The outcome of \<open>test\<close> against the outcome of \<open>exec\<close>: both throw, or both return
  and the boolean says whether the result is not \<open>null\<close>.\<close>

fun agree :: "exn + bool \<Rightarrow> exn + 'a option \<Rightarrow> bool" where
  "agree (Inl e) (Inl e') = True"
| "agree (Inr b) (Inr r) = (b = (r \<noteq> None))"
| "agree (Inl e) (Inr r) = False"
| "agree (Inr b) (Inl e') = False"


text \<open>The compiled expression of the component \<open>k\<close> matches the value \<open>v\<close>.\<close>

definition component_matches ::
  "'r env \<Rightarrow> (string \<times> 'r component) list \<Rightarrow> string \<times> jsstring \<Rightarrow> bool" where
  "component_matches env cs kv =
     (case map_of cs (fst kv) of
        None \<Rightarrow> False
      | Some c \<Rightarrow> RegExp_exec env (regexp c) (snd kv) \<noteq> None)"

text \<open>The generated expression of a parsed component compiles, and a compiled component
  comes from a parsed one: same key, same strings, and the expression \<open>new RegExp\<close> gave.\<close>

definition compiles :: "'r env \<Rightarrow> string \<times> parsed_component \<Rightarrow> bool" where
  "compiles env kc =
     (case RegExp env (regexpString (snd kc)) ''u'' of Inl e \<Rightarrow> False | Inr r \<Rightarrow> True)"

definition compiled_from ::
  "'r env \<Rightarrow> string \<times> parsed_component \<Rightarrow> string \<times> 'r component \<Rightarrow> bool" where
  "compiled_from env kc kc' =
     (fst kc' = fst kc
      \<and> patternString (snd kc') = patternString (snd kc)
      \<and> regexpString (snd kc') = regexpString (snd kc)
      \<and> groupNameList (snd kc') = groupNameList (snd kc)
      \<and> RegExp env (regexpString (snd kc)) ''u'' = Inr (regexp (snd kc')))"

text \<open>What the pattern module of the small environment returns for the pattern
  \<open>/books/*\<close>.\<close>

definition wildcard_parsed :: parsed_component where
  "wildcard_parsed =
     \<lparr>patternString = ascii ''*'', regexpString = ascii ''^(.*)$'',
      groupNameList = [ascii ''0'']\<rparr>"

definition literal_parsed :: "jsstring \<Rightarrow> parsed_component" where
  "literal_parsed p =
     \<lparr>patternString = p, regexpString = [0x5E] @ escape_regexp p @ [0x24],
      groupNameList = []\<rparr>"

definition books_parsed :: "(string \<times> parsed_component) list" where
  "books_parsed =
     [(''protocol'', literal_parsed (ascii ''https'')),
      (''username'', wildcard_parsed), (''password'', wildcard_parsed),
      (''hostname'', literal_parsed (ascii ''example.com'')),
      (''port'', literal_parsed []),
      (''pathname'',
       \<lparr>patternString = ascii ''/books/*'',
        regexpString = [0x5E] @ escape_regexp (ascii ''/books/'') @ ascii ''(.*)$'',
        groupNameList = [ascii ''0'']\<rparr>),
      (''search'', wildcard_parsed), (''hash'', wildcard_parsed)]"

text \<open>The match inputs \<open>("/books/123", "https://example.com")\<close> and
  \<open>("/book", "https://example.com")\<close>.\<close>

definition path_args :: "jsval list" where
  "path_args = [JString (ascii ''/books/123''), JString (ascii ''https://example.com'')]"

definition book_args :: "jsval list" where
  "book_args = [JString (ascii ''/book''), JString (ascii ''https://example.com'')]"

section \<open>Properties of converters.USVString\<close>

lemma unat_lt: "unat (u :: 16 word) < 65536"
  using unsigned_less [of u, where 'a = nat] by simp

lemma fromCodePoint_bmp: "fromCodePoint (unat (u :: 16 word)) = Inr [u]"
  using unat_lt [of u] by (simp add: fromCodePoint_def)

lemma fromCodePoint_fffd: "fromCodePoint 0xfffd = Inr [0xFFFD]"
  by (simp add: fromCodePoint_def)

lemma and_1023: "(c::nat) AND 0x3ff = c mod 1024"
proof -
  have "c AND mask 10 = c mod 2 ^ 10"
    by (simp only: take_bit_eq_mask [symmetric] take_bit_eq_mod)
  then show ?thesis by (simp add: mask_eq_exp_minus_1)
qed

lemma fromCodePoint_pair:
  assumes "is_lead u" "is_trail v"
  shows "fromCodePoint (push_bit 15 2 + push_bit 9 2 * (unat u AND 0x3ff) + (unat v AND 0x3ff)) = Inr [u, v]"
proof -
  define c where "c = unat u"
  define d where "d = unat v"
  have c: "0xD800 \<le> c" "c \<le> 0xDBFF" and d: "0xDC00 \<le> d" "d \<le> 0xDFFF"
    using assms by (simp_all add: is_lead_def is_trail_def c_def d_def)
  have "c = (c - 55296) + 54 * 1024" using c by simp
  then have "c mod 1024 = ((c - 55296) + 54 * 1024) mod 1024" by simp
  also have "\<dots> = (c - 55296) mod 1024" by (rule mod_mult_self1)
  finally have cm: "c mod 1024 = c - 0xD800" using c by simp
  have "d = (d - 56320) + 55 * 1024" using d by simp
  then have "d mod 1024 = ((d - 56320) + 55 * 1024) mod 1024" by simp
  also have "\<dots> = (d - 56320) mod 1024" by (rule mod_mult_self1)
  finally have dm: "d mod 1024 = d - 0xDC00" using d by simp
  define a where "a = c - 0xD800"
  define b where "b = d - 0xDC00"
  have ab: "a < 1024" "b < 1024" "c = 0xD800 + a" "d = 0xDC00 + b"
    using c d by (simp_all add: a_def b_def)
  define cp where "cp = push_bit 15 2 + push_bit 9 2 * (c AND 0x3ff) + (d AND 0x3ff)"
  have cp: "cp = 0x10000 + (a * 1024 + b)"
    unfolding cp_def and_1023 cm dm by (simp add: push_bit_eq_mult a_def b_def)
  have "(a * 1024 + b) div 1024 = a" "(a * 1024 + b) mod 1024 = b"
    using ab by simp_all
  then have hi: "0xD800 + (cp - 0x10000) div 0x400 = c"
    and lo: "0xDC00 + (cp - 0x10000) mod 0x400 = d"
    unfolding cp using ab by simp_all
  have range: "\<not> cp > 0x10FFFF" "\<not> cp < 0x10000"
    unfolding cp using ab by simp_all
  have "fromCodePoint cp = Inr [of_nat c, of_nat d]"
    unfolding fromCodePoint_def using range hi lo by (simp only: if_False)
  then have "fromCodePoint cp = Inr [u, v]" by (simp add: c_def d_def)
  then show ?thesis by (simp only: cp_def c_def d_def)
qed

lemma replace_unpaired_Cons:
  "\<not> is_lead u \<Longrightarrow>
     replace_unpaired (u # xs) = (if is_trail u then 0xFFFD else u) # replace_unpaired xs"
  by (cases xs) simp_all

lemma replace_unpaired_lead:
  "is_lead u \<Longrightarrow> \<not> is_trail v \<Longrightarrow>
     replace_unpaired (u # v # xs) = 0xFFFD # replace_unpaired (v # xs)"
  by simp

lemma USVString_loop_eq:
  "i \<le> length S \<Longrightarrow> USVString_loop S i U = Inr (U @ replace_unpaired (drop i S))"
proof (induction "length S - i" arbitrary: i U rule: less_induct)
  case less
  show ?case
  proof (cases "i < length S")
    case False
    with less.prems show ?thesis by (subst USVString_loop.simps) simp
  next
    case True
    define u where "u = S ! i"
    define c where "c = unat u"
    have cc: "charCodeAt S i = c" by (simp add: charCodeAt_def u_def c_def)
    have fc: "fromCodePoint c = Inr [u]" by (simp add: c_def fromCodePoint_bmp)
    have dr: "drop i S = u # drop (Suc i) S"
      using True by (simp add: u_def Cons_nth_drop_Suc)
    have IH1: "USVString_loop S (Suc i) V = Inr (V @ replace_unpaired (drop (Suc i) S))" for V
      using less.hyps [of "Suc i" V] True by simp
    consider (plain) "c < 0xd800 \<or> c > 0xdfff"
      | (trail) "\<not> (c < 0xd800 \<or> c > 0xdfff)" "0xdc00 \<le> c \<and> c \<le> 0xdfff"
      | (lead) "\<not> (c < 0xd800 \<or> c > 0xdfff)" "\<not> (0xdc00 \<le> c \<and> c \<le> 0xdfff)"
      by blast
    then show ?thesis
    proof cases
      case plain
      then have "\<not> is_lead u" "\<not> is_trail u"
        by (auto simp: is_lead_def is_trail_def c_def)
      then have "replace_unpaired (drop i S) = u # replace_unpaired (drop (Suc i) S)"
        by (simp add: dr replace_unpaired_Cons)
      moreover have "USVString_loop S i U = USVString_loop S (Suc i) (U @ [u])"
        using True plain by (subst USVString_loop.simps [of S i U]) (simp add: cc fc)
      ultimately show ?thesis by (simp add: IH1)
    next
      case trail
      then have "\<not> is_lead u" "is_trail u"
        by (auto simp: is_lead_def is_trail_def c_def)
      then have "replace_unpaired (drop i S) = 0xFFFD # replace_unpaired (drop (Suc i) S)"
        by (simp add: dr replace_unpaired_Cons)
      moreover have "USVString_loop S i U = USVString_loop S (Suc i) (U @ [0xFFFD])"
        using True trail
        by (subst USVString_loop.simps [of S i U]) (simp add: cc fromCodePoint_fffd)
      ultimately show ?thesis by (simp add: IH1)
    next
      case lead
      then have ld: "is_lead u" and nt: "\<not> is_trail u"
        by (auto simp: is_lead_def is_trail_def c_def)
      show ?thesis
      proof (cases "i = length S - 1")
        case last: True
        then have nil: "drop (Suc i) S = []" by simp
        then have "replace_unpaired (drop i S) = [0xFFFD]" using ld by (simp add: dr)
        moreover have il: "(i = length S - Suc 0) = True" using last by simp
        have "USVString_loop S i U = USVString_loop S (Suc i) (U @ [0xFFFD])"
          using True lead
          by (subst USVString_loop.simps [of S i U]) (simp add: cc fromCodePoint_fffd il)
        ultimately show ?thesis by (simp add: IH1 nil)
      next
        case notlast: False
        then have lt: "Suc i < length S" using True by simp
        define v where "v = S ! (i + 1)"
        define d where "d = unat v"
        have cd: "charCodeAt S (Suc i) = d" by (simp add: charCodeAt_def v_def d_def)
        have dr2: "drop (Suc i) S = v # drop (Suc (Suc i)) S"
          using lt by (simp add: v_def Cons_nth_drop_Suc)
        have IH2: "USVString_loop S (Suc (Suc i)) V
                     = Inr (V @ replace_unpaired (drop (Suc (Suc i)) S))" for V
          using less.hyps [of "Suc (Suc i)" V] lt by simp
        show ?thesis
        proof (cases "0xdc00 \<le> d \<and> d \<le> 0xdfff")
          case tv: True
          then have tr: "is_trail v" by (simp add: is_trail_def d_def)
          have "replace_unpaired (drop i S) = u # v # replace_unpaired (drop (Suc (Suc i)) S)"
            using ld tr by (simp add: dr dr2)
          moreover have "USVString_loop S i U = USVString_loop S (Suc (Suc i)) (U @ [u, v])"
            using True lead notlast tv fromCodePoint_pair [OF ld tr, folded c_def d_def]
            by (subst USVString_loop.simps [of S i U]) (simp add: cc cd)
          ultimately show ?thesis by (simp add: IH2)
        next
          case tv: False
          then have tr: "\<not> is_trail v" by (simp add: is_trail_def d_def)
          have "replace_unpaired (drop i S) = 0xFFFD # replace_unpaired (drop (Suc i) S)"
            using ld tr by (simp add: dr dr2)
          moreover have "USVString_loop S i U = USVString_loop S (Suc i) (U @ [0xFFFD])"
            using True lead notlast
            by (subst USVString_loop.simps [of S i U])
               (simp add: cc cd fromCodePoint_fffd eq_False [THEN iffD2, OF tv])
          ultimately show ?thesis by (simp add: IH1)
        qed
      qed
    qed
  qed
qed

lemma well_formed_Cons:
  "\<not> is_lead u \<Longrightarrow> \<not> is_trail u \<Longrightarrow> well_formed xs \<Longrightarrow> well_formed (u # xs)"
  by (cases xs) simp_all

lemma fffd_not_surrogate: "\<not> is_lead 0xFFFD" "\<not> is_trail 0xFFFD"
  by (simp_all add: is_lead_def is_trail_def)

lemma well_formed_replace_unpaired: "well_formed (replace_unpaired S)"
proof (induction S rule: replace_unpaired.induct)
  case 1
  show ?case by simp
next
  case (2 u)
  show ?case by (simp add: fffd_not_surrogate)
next
  case (3 u v rest)
  show ?case
  proof (cases "is_lead u \<and> is_trail v")
    case True
    with 3 show ?thesis by simp
  next
    case False
    with 3 have wf: "well_formed (replace_unpaired (v # rest))" by simp
    show ?thesis
    proof (cases "is_lead u \<or> is_trail u")
      case True
      with False have "replace_unpaired (u # v # rest) = 0xFFFD # replace_unpaired (v # rest)"
        by (simp only: replace_unpaired.simps if_False if_True)
      with well_formed_Cons [OF fffd_not_surrogate wf] show ?thesis
        by (simp only:)
    next
      case nsur: False
      with False have "replace_unpaired (u # v # rest) = u # replace_unpaired (v # rest)"
        by (simp only: replace_unpaired.simps if_False if_True)
      moreover from nsur have "\<not> is_lead u" "\<not> is_trail u" by simp_all
      from well_formed_Cons [OF this wf] have "well_formed (u # replace_unpaired (v # rest))" .
      ultimately show ?thesis by (simp only:)
    qed
  qed
qed

lemma replace_unpaired_id: "well_formed S \<Longrightarrow> replace_unpaired S = S"
proof (induction S rule: replace_unpaired.induct)
  case 1
  show ?case by simp
next
  case (2 u)
  then show ?case by simp
next
  case (3 u v rest)
  show ?case
  proof (cases "is_lead u")
    case True
    with "3.prems" have "is_trail v" "well_formed rest" by simp_all
    with True "3.IH"(1) show ?thesis by simp
  next
    case False
    with "3.prems" have "\<not> is_trail u" "well_formed (v # rest)" by simp_all
    with False "3.IH"(2) show ?thesis by simp
  qed
qed

lemma pair_code_point_eq:
  assumes "is_lead u" "is_trail v"
  shows "push_bit 15 2 + push_bit 9 2 * (unat u AND 0x3ff) + (unat v AND 0x3ff)
           = pair_code_point u v"
proof -
  have u: "0xD800 \<le> unat u" "unat u \<le> 0xDBFF" and v: "0xDC00 \<le> unat v" "unat v \<le> 0xDFFF"
    using assms by (simp_all add: is_lead_def is_trail_def)
  have "unat u = (unat u - 55296) + 54 * 1024" using u by simp
  then have "unat u mod 1024 = ((unat u - 55296) + 54 * 1024) mod 1024" by simp
  also have "\<dots> = (unat u - 55296) mod 1024" by (rule mod_mult_self1)
  finally have um: "unat u mod 1024 = unat u - 0xD800" using u by simp
  have "unat v = (unat v - 56320) + 55 * 1024" using v by simp
  then have "unat v mod 1024 = ((unat v - 56320) + 55 * 1024) mod 1024" by simp
  also have "\<dots> = (unat v - 56320) mod 1024" by (rule mod_mult_self1)
  finally have vm: "unat v mod 1024 = unat v - 0xDC00" using v by simp
  show ?thesis
    unfolding and_1023 um vm pair_code_point_def by (simp add: push_bit_eq_mult)
qed

lemma DOMString_string: "converters_DOMString env (JString S) opts = Inr S"
  by (simp add: converters_DOMString_def)

lemma USVString_string:
  "converters_USVString env (JString S) opts = Inr (replace_unpaired S)"
  by (simp add: converters_USVString_def DOMString_string USVString_loop_eq)

text \<open>
  Claim C9. Applied to a string, converters.USVString returns a well-formed UTF-16 string:
  the input with every unpaired surrogate code unit replaced by U+FFFD and every surrogate
  pair kept; a pair is what \<open>String.fromCodePoint\<close> gives for its supplementary code
  point; and a well-formed input is returned unchanged.
\<close>

theorem USVString_well_formed:
  "converters_USVString env (JString S) opts = Inr (replace_unpaired S)
   \<and> well_formed (replace_unpaired S)
   \<and> (is_lead u \<and> is_trail v \<longrightarrow>
        converters_USVString env (JString [u, v]) opts = fromCodePoint (pair_code_point u v))
   \<and> (well_formed S \<longrightarrow> converters_USVString env (JString S) opts = Inr S)"
proof -
  have pair: "converters_USVString env (JString [u, v]) opts = fromCodePoint (pair_code_point u v)"
    if "is_lead u" "is_trail v"
    using that fromCodePoint_pair [OF that] pair_code_point_eq [OF that]
    by (simp add: USVString_string)
  show ?thesis
    using pair by (simp add: USVString_string well_formed_replace_unpaired replace_unpaired_id)
qed

theorem USVString_well_formed_witness:
  "is_lead 0xD83D \<and> is_trail 0xDE00 \<and> well_formed [0xD83D, 0xDE00]
   \<and> converters_USVString sample_env (JString [0xD83D, 0xDE00]) no_opts
       = fromCodePoint (pair_code_point 0xD83D 0xDE00)
   \<and> converters_USVString sample_env (JString [0xD83D, 0xDE00]) no_opts
       = Inr [0xD83D, 0xDE00]"
  using USVString_well_formed [of sample_env "[0xD83D, 0xDE00]" no_opts "0xD83D" "0xDE00"]
  by (simp add: is_lead_def is_trail_def fromCodePoint_def pair_code_point_def)

section \<open>The brand check and the instances of the constructor\<close>

lemma assertBranded_ok:
  "assertBranded self = Inr () \<longleftrightarrow> instanceof_URLPattern self \<and> brand_slot self = brand"
  by (simp add: assertBranded_def)

lemma assertBranded_fails:
  "\<not> instanceof_URLPattern self \<or> brand_slot self \<noteq> brand \<Longrightarrow>
     assertBranded self = Inl (Exn TypeError ''Illegal invocation'')"
  by (simp add: assertBranded_def)

lemma constructed_shape:
  assumes "URLPattern_constructor env args = Inr this"
  shows "instanceof_URLPattern this \<and> brand_slot this = brand \<and> components_slot this \<noteq> None"
  using assms
  by (auto simp: URLPattern_constructor_def Let_def split: sum.splits prod.splits)

text \<open>Evaluation in the small environment.\<close>

lemma USVString_loop_replace: "USVString_loop S i U = Inr (U @ replace_unpaired (drop i S))"
proof (cases "i \<le> length S")
  case True
  then show ?thesis by (rule USVString_loop_eq)
next
  case False
  then show ?thesis by (subst USVString_loop.simps) simp
qed

lemmas eval_defs =
  URLPattern_constructor_def convert_arguments_def requiredArguments_def
  converters_URLPatternInput_def converters_URLPatternInit_def createDictionaryConverter_def
  dictionary_converter_def USVString_member_def sort_members_def arg_def
  converters_USVString_def converters_DOMString_def USVString_loop_replace
  sample_env_def Let_def ascii_def sample_component_def plain_def sample_RegExp_def
  wildcard_component_def literal_component_def brand_def component_keys_def quoted_def
  no_opts_def truthy_def is_lead_def is_trail_def sample_resolve_def sample_patterns_def
  against_base_def
  URLPattern_test_def URLPattern_test_tested_def URLPattern_test_run_def URLPattern_exec_def
  assertBranded_def RegExp_test_def pop_null_def

lemma books_constructed: "URLPattern_constructor sample_env books_args = Inr books_pattern"
  by (simp add: eval_defs books_args_def books_pattern_def)

lemma true_constructed: "URLPattern_constructor sample_env true_args = Inr true_pattern"
  by (simp add: eval_defs true_args_def true_pattern_def)

text \<open>
  Claim C10, as amended. A receiver that fails the brand check, because it is not
  \<open>instanceof URLPattern\<close> or because its brand property is not the brand symbol, makes
  \<open>test\<close>, \<open>exec\<close> and each of the eight getters throw the TypeError "Illegal invocation",
  whatever the environment and the arguments are, and with no \<open>regexp.test\<close> called.
\<close>

theorem illegal_invocation:
  assumes "\<not> instanceof_URLPattern this \<or> brand_slot this \<noteq> brand"
  shows "URLPattern_test_run env this args = ([], Inl (Exn TypeError ''Illegal invocation''))
       \<and> URLPattern_exec env this args = Inl (Exn TypeError ''Illegal invocation'')
       \<and> getters this = replicate 8 (Inl (Exn TypeError ''Illegal invocation''))"
proof -
  have fails: "assertBranded this = Inl (Exn TypeError ''Illegal invocation'')"
    using assms by (rule assertBranded_fails)
  have "URLPattern_test_run env this args = ([], Inl (Exn TypeError ''Illegal invocation''))"
    by (simp add: URLPattern_test_run_def fails)
  moreover have "URLPattern_exec env this args = Inl (Exn TypeError ''Illegal invocation'')"
    by (simp add: URLPattern_exec_def fails)
  moreover have "getters this = replicate 8 (Inl (Exn TypeError ''Illegal invocation''))"
    by (simp add: getters_def fails URLPattern_protocol_def URLPattern_username_def
        URLPattern_password_def URLPattern_hostname_def URLPattern_port_def
        URLPattern_pathname_def URLPattern_search_def URLPattern_hash_def eval_nat_numeral)
  ultimately show ?thesis by simp
qed

theorem illegal_invocation_witness:
  "brand_slot plain_object \<noteq> brand
   \<and> URLPattern_test_run sample_env plain_object books_args
       = ([], Inl (Exn TypeError ''Illegal invocation''))
   \<and> URLPattern_exec sample_env plain_object books_args
       = Inl (Exn TypeError ''Illegal invocation'')
   \<and> getters plain_object = replicate 8 (Inl (Exn TypeError ''Illegal invocation''))"
proof -
  have h: "brand_slot plain_object \<noteq> brand"
    by (simp add: plain_object_def brand_def)
  then have "\<not> instanceof_URLPattern plain_object \<or> brand_slot plain_object \<noteq> brand" ..
  from illegal_invocation [OF this, of sample_env books_args] h show ?thesis by simp
qed

text \<open>The receiver \<open>forged\<close> was not made by the constructor, which always stores
  components; it passes the brand check, and its getters and methods fail on the missing
  components with the engine's TypeError instead.\<close>

theorem forged_receiver_counterexample:
  "components_slot forged = None
   \<and> URLPattern_protocol forged = Inl (undefined_read ''protocol'')
   \<and> URLPattern_protocol forged \<noteq> Inl (Exn TypeError ''Illegal invocation'')
   \<and> URLPattern_test sample_env forged path_args = Inl (undefined_read ''protocol'')
   \<and> URLPattern_test sample_env forged path_args \<noteq> Inl (Exn TypeError ''Illegal invocation'')"
proof -
  have p: "URLPattern_protocol forged = Inl (undefined_read ''protocol'')"
    by (simp add: URLPattern_protocol_def assertBranded_def forged_def
        component_patternString_def)
  have t: "URLPattern_test sample_env forged path_args = Inl (undefined_read ''protocol'')"
    by (simp add: eval_defs path_args_def forged_def)
  have ne: "undefined_read ''protocol'' \<noteq> Exn TypeError ''Illegal invocation''"
    by (simp add: undefined_read_def)
  show ?thesis using p t ne by (simp add: forged_def)
qed

section \<open>The argument checks\<close>

lemma URLPatternInput_string:
  "converters_URLPatternInput env (JString s) opts = Inr (InputString (replace_unpaired s))"
  by (simp add: converters_URLPatternInput_def USVString_string)

lemma requiredArguments_one:
  "requiredArguments n (Suc 0) opts
     = (if n = 0 then
          Inl (Exn TypeError
                 ((if truthy (opt_prefix opts) then the (opt_prefix opts) @ '': '' else [])
                  @ ''1 argument required, but only 0 present.''))
        else Inr ())"
proof -
  have "decimal 0 = ''0''" "decimal (Suc 0) = ''1''"
    by code_simp+
  then show ?thesis
    by (simp add: requiredArguments_def)
qed

lemma arg_Cons:
  "arg (V # rest) 0 = V"
  "arg (V # rest) (Suc n) = arg rest n"
  "arg (V # rest) 1 = arg rest 0"
  "arg [] n = JUndefined"
  by (simp_all add: arg_def)

lemma convert_arguments_Cons:
  "convert_arguments env p (V # rest)
     = (case converters_URLPatternInput env V
               \<lparr>opt_prefix = Some p, opt_context = Some ''Argument 1'',
                treatNullAsEmptyString = False\<rparr> of
          Inl e \<Rightarrow> Inl e
        | Inr input \<Rightarrow>
            if arg rest 0 \<noteq> JUndefined then
              (case converters_USVString env (arg rest 0)
                      \<lparr>opt_prefix = Some p, opt_context = Some ''Argument 2'',
                       treatNullAsEmptyString = False\<rparr> of
                 Inl e \<Rightarrow> Inl e
               | Inr baseURL \<Rightarrow> Inr (input, Some baseURL))
            else Inr (input, None))"
  by (simp add: convert_arguments_def requiredArguments_one arg_Cons split: sum.splits)

lemma convert_arguments_Nil:
  "convert_arguments env p []
     = Inl (Exn TypeError ((if p \<noteq> [] then p @ '': '' else [])
                           @ ''1 argument required, but only 0 present.''))"
  by (simp add: convert_arguments_def requiredArguments_one no_opts_def truthy_def)

lemma convert_arguments_strings:
  "convert_arguments env p (JString s # (case b of None \<Rightarrow> [] | Some t \<Rightarrow> [JString t]))
     = Inr (InputString (replace_unpaired s), map_option replace_unpaired b)"
  by (cases b)
     (simp_all add: convert_arguments_Cons URLPatternInput_string USVString_string arg_Cons)

text \<open>
  Claim C2. On an instance made by the constructor, for an input string and an optional
  base string that the pattern module fails to resolve (it returns \<open>null\<close> for the converted
  strings), \<open>test\<close> returns \<open>false\<close> and \<open>exec\<close> returns \<open>null\<close>; neither throws, and no
  expression is run.
\<close>

theorem resolution_failure:
  assumes "URLPattern_constructor env cargs = Inr this"
    and "args = JString s # (case b of None \<Rightarrow> [] | Some t \<Rightarrow> [JString t])"
    and "urlpatternProcessMatchInput env (InputString (replace_unpaired s))
           (map_option replace_unpaired b) = Inr None"
  shows "URLPattern_test env this args = Inr False
       \<and> URLPattern_test_tested env this args = []
       \<and> URLPattern_exec env this args = Inr None"
proof -
  have ok: "assertBranded this = Inr ()"
    using constructed_shape [OF assms(1)] by (simp add: assertBranded_ok)
  show ?thesis
    unfolding URLPattern_test_def URLPattern_test_tested_def URLPattern_test_run_def
      URLPattern_exec_def assms(2)
    by (simp add: ok convert_arguments_strings assms(3))
qed

lemma scenario_4_unresolved:
  "urlpatternProcessMatchInput sample_env
     (InputString (replace_unpaired (ascii ''not a url'')))
     (map_option replace_unpaired (Some (ascii ''also not a url''))) = Inr None"
  by (simp add: eval_defs)

theorem resolution_failure_witness:
  "URLPattern_constructor sample_env books_args = Inr books_pattern
   \<and> urlpatternProcessMatchInput sample_env
        (InputString (replace_unpaired (ascii ''not a url'')))
        (map_option replace_unpaired (Some (ascii ''also not a url''))) = Inr None
   \<and> URLPattern_test sample_env books_pattern
        [JString (ascii ''not a url''), JString (ascii ''also not a url'')] = Inr False
   \<and> URLPattern_exec sample_env books_pattern
        [JString (ascii ''not a url''), JString (ascii ''also not a url'')] = Inr None"
  using resolution_failure [OF books_constructed _ scenario_4_unresolved,
      of "[JString (ascii ''not a url''), JString (ascii ''also not a url'')]"]
    books_constructed scenario_4_unresolved
  by simp

section \<open>The input shapes the constructor rejects\<close>

lemma URLPatternInput_coerced:
  assumes "typeof V \<noteq> ''object''" "typeof V \<noteq> ''symbol''" "String_js env V = Inr s"
  shows "converters_URLPatternInput env V opts = converters_URLPatternInput env (JString s) opts"
proof -
  have "V \<noteq> JNull" using assms(1) by auto
  then have "converters_DOMString env V opts = Inr s"
    using assms by (simp add: converters_DOMString_def)
  then show ?thesis
    using assms(1)
    by (simp add: converters_URLPatternInput_def converters_USVString_def DOMString_string)
qed

text \<open>
  Claim C3, as amended. Construction throws a TypeError when no argument is given. An
  input whose \<open>typeof\<close> is neither \<open>object\<close> nor \<open>symbol\<close> (\<open>undefined\<close>, a boolean, a
  number, a bigint, a function, a string) is converted with \<open>String\<close>, and construction
  goes on as it does for the string that gives. Nothing is said of \<open>null\<close>, which \<open>typeof\<close>
  sends with the objects, nor of a symbol.
\<close>

theorem constructor_input_shape:
  "URLPattern_constructor env []
     = Inl (Exn TypeError (''Failed to construct '' @ quoted ''URLPattern''
                           @ '': 1 argument required, but only 0 present.''))
   \<and> (typeof V \<noteq> ''object'' \<and> typeof V \<noteq> ''symbol'' \<and> String_js env V = Inr s \<longrightarrow>
        URLPattern_constructor env (V # rest) = URLPattern_constructor env (JString s # rest))"
proof -
  have none: "URLPattern_constructor env []
     = Inl (Exn TypeError (''Failed to construct '' @ quoted ''URLPattern''
                           @ '': 1 argument required, but only 0 present.''))"
    by (simp add: URLPattern_constructor_def convert_arguments_Nil Let_def quoted_def)
  have coerce: "URLPattern_constructor env (V # rest) = URLPattern_constructor env (JString s # rest)"
    if "typeof V \<noteq> ''object''" "typeof V \<noteq> ''symbol''" "String_js env V = Inr s"
    by (simp only: URLPattern_constructor_def convert_arguments_Cons
        URLPatternInput_coerced [OF that])
  show ?thesis using none coerce by blast
qed

theorem constructor_input_shape_witness:
  "URLPattern_constructor sample_env []
     = Inl (Exn TypeError (''Failed to construct '' @ quoted ''URLPattern''
                           @ '': 1 argument required, but only 0 present.''))
   \<and> typeof (JBoolean True) \<noteq> ''object'' \<and> typeof (JBoolean True) \<noteq> ''symbol''
   \<and> String_js sample_env (JBoolean True) = Inr (ascii ''true'')
   \<and> URLPattern_constructor sample_env [JBoolean True, JString (ascii ''https://example.com'')]
       = URLPattern_constructor sample_env
           [JString (ascii ''true''), JString (ascii ''https://example.com'')]"
  using constructor_input_shape [of sample_env "JBoolean True" "ascii ''true''"
      "[JString (ascii ''https://example.com'')]"]
  by simp

text \<open>\<open>new URLPattern(true, "https://example.com")\<close> constructs an instance: the input is
  a boolean, neither a string nor an object.\<close>

theorem boolean_input_counterexample:
  "typeof (arg true_args 0) = ''boolean''
   \<and> URLPattern_constructor sample_env true_args = Inr true_pattern"
  using true_constructed by (simp add: true_args_def arg_def)

section \<open>test against exec\<close>

text \<open>The conversions do not depend on \<open>prefix\<close> and \<open>context\<close>, which only enter the
  exceptions: for two option objects they throw together, or return the same value.\<close>

lemma DOMString_rel:
  assumes "treatNullAsEmptyString o1 = treatNullAsEmptyString o2"
  shows "rel_sum (\<lambda>e e'. True) (=)
           (converters_DOMString env V o1) (converters_DOMString env V o2)"
  using assms by (cases "String_js env V") (simp_all add: converters_DOMString_def)

lemma USVString_rel:
  assumes "treatNullAsEmptyString o1 = treatNullAsEmptyString o2"
  shows "rel_sum (\<lambda>e e'. True) (=)
           (converters_USVString env V o1) (converters_USVString env V o2)"
  using DOMString_rel [OF assms, of env V]
  by (cases "converters_DOMString env V o1"; cases "converters_DOMString env V o2")
     (simp_all add: converters_USVString_def USVString_loop_replace)

lemma dictionary_members_rel:
  assumes "\<forall>m \<in> set ms. converter m = converters_USVString"
    and "treatNullAsEmptyString o1 = treatNullAsEmptyString o2"
  shows "rel_sum (\<lambda>e e'. True) (=)
           (dictionary_members env name typeV V o1 ms d)
           (dictionary_members env name typeV V o2 ms d)"
  using assms(1)
proof (induction ms arbitrary: d)
  case Nil
  show ?case by simp
next
  case (Cons m ms)
  define g where "g = (if typeV = ''Undefined'' \<or> typeV = ''Null'' then Inr JUndefined
                       else js_get env V (key m))"
  show ?case
  proof (cases g)
    case (Inl e)
    then show ?thesis by (simp add: g_def [symmetric])
  next
    case (Inr x)
    show ?thesis
    proof (cases "x = JUndefined")
      case True
      with Inr Cons show ?thesis by (simp add: g_def [symmetric])
    next
      case False
      define c1 where "c1 = quoted (key m) @ '' of '' @ quoted name
                   @ (if truthy (opt_context o1)
                      then '' ('' @ the (opt_context o1) @ '')'' else [])"
      define c2 where "c2 = quoted (key m) @ '' of '' @ quoted name
                   @ (if truthy (opt_context o2)
                      then '' ('' @ the (opt_context o2) @ '')'' else [])"
      have conv: "converter m = converters_USVString" using Cons.prems by simp
      have rel: "rel_sum (\<lambda>e e'. True) (=)
                   (converters_USVString env x (o1\<lparr>opt_context := Some c1\<rparr>))
                   (converters_USVString env x (o2\<lparr>opt_context := Some c2\<rparr>))"
        by (rule USVString_rel) (simp add: assms(2))
      have IH: "rel_sum (\<lambda>e e'. True) (=)
           (dictionary_members env name typeV V o1 ms d')
           (dictionary_members env name typeV V o2 ms d')" for d'
        using Cons by simp
      show ?thesis
        unfolding dictionary_members.simps g_def [symmetric] Let_def
          c1_def [symmetric] c2_def [symmetric] conv
        using rel IH False Inr
        by (cases "converters_USVString env x (o1\<lparr>opt_context := Some c1\<rparr>)";
            cases "converters_USVString env x (o2\<lparr>opt_context := Some c2\<rparr>)")
           simp_all
    qed
  qed
qed

lemma set_insert_member: "set (insert_member m xs) = insert m (set xs)"
  by (induction xs) auto

lemma set_sort_members_aux:
  "set (foldl (\<lambda>sorted m. insert_member m sorted) acc ms) = set acc \<union> set ms"
  by (induction ms arbitrary: acc) (simp_all add: set_insert_member)

lemma set_sort_members: "set (sort_members ms) = set ms"
  by (simp add: sort_members_def set_sort_members_aux)

lemma URLPatternInit_rel:
  assumes "treatNullAsEmptyString o1 = treatNullAsEmptyString o2"
  shows "rel_sum (\<lambda>e e'. True) (=)
           (converters_URLPatternInit env V o1) (converters_URLPatternInit env V o2)"
proof -
  define ms :: "'a member list" where
    "ms = [USVString_member ''protocol'', USVString_member ''username'',
           USVString_member ''password'', USVString_member ''hostname'',
           USVString_member ''port'', USVString_member ''pathname'',
           USVString_member ''search'', USVString_member ''hash'',
           USVString_member ''baseURL'']"
  have "\<forall>m \<in> set ms. converter m = converters_USVString"
    by (simp add: ms_def USVString_member_def)
  then have all: "\<forall>m \<in> set (sort_members ms). converter m = converters_USVString"
    by (simp add: set_sort_members)
  have eq: "converters_URLPatternInit env V opts
              = dictionary_converter ''URLPatternInit'' (sort_members ms)
                  (list_ex required ms) env V opts" for opts
    by (simp add: converters_URLPatternInit_def createDictionaryConverter_def ms_def Let_def)
  show ?thesis
    unfolding eq dictionary_converter_def
    using dictionary_members_rel [OF all assms]
    by (cases "type_js env V") (simp_all add: Let_def)
qed

lemma URLPatternInput_rel:
  assumes "treatNullAsEmptyString o1 = treatNullAsEmptyString o2"
  shows "rel_sum (\<lambda>e e'. True) (=)
           (converters_URLPatternInput env V o1) (converters_URLPatternInput env V o2)"
proof (cases "typeof V = ''object''")
  case True
  with URLPatternInit_rel [OF assms, of env V] show ?thesis
    by (cases "converters_URLPatternInit env V o1"; cases "converters_URLPatternInit env V o2")
       (simp_all add: converters_URLPatternInput_def)
next
  case False
  with USVString_rel [OF assms, of env V] show ?thesis
    by (cases "converters_USVString env V o1"; cases "converters_USVString env V o2")
       (simp_all add: converters_URLPatternInput_def)
qed

lemma convert_arguments_rel:
  "rel_sum (\<lambda>e e'. True) (=) (convert_arguments env p1 args) (convert_arguments env p2 args)"
proof (cases args)
  case Nil
  then show ?thesis by (simp add: convert_arguments_Nil)
next
  case (Cons V rest)
  let ?o1 = "\<lparr>opt_prefix = Some p1, opt_context = Some ''Argument 1'',
              treatNullAsEmptyString = False\<rparr>"
  let ?o2 = "\<lparr>opt_prefix = Some p2, opt_context = Some ''Argument 1'',
              treatNullAsEmptyString = False\<rparr>"
  let ?b1 = "\<lparr>opt_prefix = Some p1, opt_context = Some ''Argument 2'',
              treatNullAsEmptyString = False\<rparr>"
  let ?b2 = "\<lparr>opt_prefix = Some p2, opt_context = Some ''Argument 2'',
              treatNullAsEmptyString = False\<rparr>"
  have r1: "rel_sum (\<lambda>e e'. True) (=)
              (converters_URLPatternInput env V ?o1) (converters_URLPatternInput env V ?o2)"
    by (rule URLPatternInput_rel) simp
  have r2: "rel_sum (\<lambda>e e'. True) (=)
              (converters_USVString env (arg rest 0) ?b1)
              (converters_USVString env (arg rest 0) ?b2)"
    by (rule USVString_rel) simp
  show ?thesis
    unfolding Cons convert_arguments_Cons
    using r1 r2
    by (cases "converters_URLPatternInput env V ?o1";
        cases "converters_URLPatternInput env V ?o2";
        cases "converters_USVString env (arg rest 0) ?b1";
        cases "converters_USVString env (arg rest 0) ?b2")
       simp_all
qed

lemma loops_agree:
  "agree (snd (test_components env components values))
         (exec_components env components values result)"
proof (induction "values" arbitrary: result)
  case Nil
  show ?case by simp
next
  case (Cons kv rest)
  obtain k v where kv: "kv = (k, v)" by (cases kv)
  show ?case
  proof (cases components)
    case None
    then show ?thesis by (simp add: kv)
  next
    case (Some cs)
    show ?thesis
    proof (cases "map_of cs k")
      case None
      with Some show ?thesis by (simp add: kv)
    next
      case c: (Some c)
      show ?thesis
      proof (cases "RegExp_exec env (regexp c) v")
        case None
        with Some c show ?thesis by (simp add: kv RegExp_test_def)
      next
        case m: (Some m)
        with Some c Cons [of "set_property k
            (ComponentField \<lparr>component_input = v,
               component_groups = fromEntries (groupEntries_of (groupNameList c) m)\<rparr>) result"]
        show ?thesis
          by (simp add: kv RegExp_test_def Let_def case_prod_beta)
      qed
    qed
  qed
qed

text \<open>
  Claim C1. For every receiver, every environment and every list of arguments, \<open>test\<close> and
  \<open>exec\<close> either both throw, or both return and \<open>test\<close> returns \<open>true\<close> exactly when
  \<open>exec\<close> returns a result that is not \<open>null\<close>.
\<close>

theorem test_iff_exec:
  "agree (URLPattern_test env this args) (URLPattern_exec env this args)"
proof (cases "assertBranded this")
  case (Inl e)
  then show ?thesis
    by (simp add: URLPattern_test_def URLPattern_test_run_def URLPattern_exec_def)
next
  case (Inr u)
  let ?pt = "''Failed to execute '' @ quoted ''test'' @ '' on '' @ quoted ''URLPattern''"
  let ?pe = "''Failed to execute '' @ quoted ''exec'' @ '' on '' @ quoted ''URLPattern''"
  have rel: "rel_sum (\<lambda>e e'. True) (=)
               (convert_arguments env ?pt args) (convert_arguments env ?pe args)"
    by (rule convert_arguments_rel)
  show ?thesis
  proof (cases "convert_arguments env ?pt args")
    case l: (Inl e)
    with rel obtain e' where "convert_arguments env ?pe args = Inl e'"
      by (cases "convert_arguments env ?pe args") simp_all
    with l Inr show ?thesis
      by (simp add: URLPattern_test_def URLPattern_test_run_def URLPattern_exec_def Let_def)
  next
    case r: (Inr conv)
    with rel have r': "convert_arguments env ?pe args = Inr conv"
      by (cases "convert_arguments env ?pe args") simp_all
    obtain input baseURL where conv: "conv = (input, baseURL)" by (cases conv)
    show ?thesis
    proof (cases "urlpatternProcessMatchInput env input baseURL")
      case (Inl e)
      with r r' Inr conv show ?thesis
        by (simp add: URLPattern_test_def URLPattern_test_run_def URLPattern_exec_def Let_def)
    next
      case res: (Inr res)
      show ?thesis
      proof (cases res)
        case None
        with res r r' Inr conv show ?thesis
          by (simp add: URLPattern_test_def URLPattern_test_run_def URLPattern_exec_def Let_def)
      next
        case (Some vi)
        obtain vs inputs where vi: "vi = (vs, inputs)" by (cases vi)
        from Some res r r' Inr conv vi
          loops_agree [of env "components_slot this" vs
            "[(''inputs'', InputsField (pop_null inputs))]"]
        show ?thesis
          by (simp add: URLPattern_test_def URLPattern_test_run_def URLPattern_exec_def Let_def)
      qed
    qed
  qed
qed

lemma books_test_true: "URLPattern_test sample_env books_pattern path_args = Inr True"
  by (simp add: eval_defs path_args_def books_pattern_def)

theorem test_iff_exec_witness:
  "agree (URLPattern_test sample_env books_pattern path_args)
         (URLPattern_exec sample_env books_pattern path_args)
   \<and> URLPattern_test sample_env books_pattern path_args = Inr True
   \<and> URLPattern_exec sample_env books_pattern path_args \<noteq> Inr None
   \<and> isl (URLPattern_exec sample_env books_pattern path_args) = False"
proof -
  have a: "agree (Inr True) (URLPattern_exec sample_env books_pattern path_args)"
    using test_iff_exec [of sample_env books_pattern path_args] by (simp add: books_test_true)
  then show ?thesis
    by (cases "URLPattern_exec sample_env books_pattern path_args")
       (simp_all add: books_test_true)
qed

section \<open>Compilation at construction\<close>

lemma compile_components_ok:
  "compile_components env p parsed = Inr compiled \<Longrightarrow>
     list_all2 (compiled_from env) parsed compiled"
proof (induction parsed arbitrary: compiled)
  case Nil
  then show ?case by simp
next
  case (Cons kc parsed)
  obtain k c where kc: "kc = (k, c)" by (cases kc)
  from Cons.prems obtain r rest where
    r: "RegExp env (regexpString c) ''u'' = Inr r"
    and rest: "compile_components env p parsed = Inr rest"
    and compiled: "compiled = (k, \<lparr>patternString = patternString c,
        regexpString = regexpString c, groupNameList = groupNameList c, regexp = r\<rparr>) # rest"
    by (auto simp: kc split: sum.splits)
  from Cons.IH [OF rest] r show ?case
    by (simp add: compiled kc compiled_from_def)
qed

lemma compile_components_all:
  "list_all (compiles env) parsed \<Longrightarrow> \<exists>compiled. compile_components env p parsed = Inr compiled"
proof (induction parsed)
  case Nil
  show ?case by simp
next
  case (Cons kc parsed)
  obtain k c where kc: "kc = (k, c)" by (cases kc)
  from Cons.prems obtain r where "RegExp env (regexpString c) ''u'' = Inr r"
    by (auto simp: kc compiles_def split: sum.splits)
  moreover from Cons obtain rest where "compile_components env p parsed = Inr rest"
    by auto
  ultimately show ?case by (simp add: kc)
qed

lemma compile_components_first_failure:
  assumes "list_all (compiles env) pre"
    and "RegExp env (regexpString c) ''u'' = Inl e"
  shows "compile_components env p (pre @ (k, c) # post)
           = Inl (Exn TypeError (p @ '': '' @ k @ '' is invalid; '' @ message e))"
  using assms(1)
proof (induction pre)
  case Nil
  show ?case by (simp add: assms(2))
next
  case (Cons kc pre)
  obtain k' c' where kc: "kc = (k', c')" by (cases kc)
  from Cons.prems obtain r where "RegExp env (regexpString c') ''u'' = Inr r"
    by (auto simp: kc compiles_def split: sum.splits)
  with Cons show ?case by (simp add: kc)
qed

text \<open>
  Claim C4. When the arguments convert and the pattern module returns the parsed
  components: if the constructor returns, every component of the instance carries the
  expression that \<open>new RegExp(regexpString, "u")\<close> gave for it, under the key and with the
  strings of the parsed component; the constructor does return when every generated
  expression compiles; and when the expression of the component \<open>k\<close> is the first that
  \<open>new RegExp\<close> rejects, with the exception \<open>e\<close>, the constructor throws the TypeError
  "Failed to construct 'URLPattern': k is invalid; " followed by the message of \<open>e\<close>.
\<close>

theorem eager_compilation:
  assumes "convert_arguments env (''Failed to construct '' @ quoted ''URLPattern'') args
             = Inr (input, baseURL)"
    and "urlpatternParse env input baseURL = Inr parsed"
  shows "(URLPattern_constructor env args = Inr this \<longrightarrow>
            (\<exists>compiled. components_slot this = Some compiled
               \<and> list_all2 (compiled_from env) parsed compiled))
       \<and> (list_all (compiles env) parsed \<longrightarrow>
            (\<exists>constructed. URLPattern_constructor env args = Inr constructed))
       \<and> (parsed = pre @ (k, c) # post \<and> list_all (compiles env) pre
            \<and> RegExp env (regexpString c) ''u'' = Inl e \<longrightarrow>
            URLPattern_constructor env args
              = Inl (Exn TypeError (''Failed to construct '' @ quoted ''URLPattern''
                                    @ '': '' @ k @ '' is invalid; '' @ message e)))"
proof -
  let ?p = "''Failed to construct '' @ quoted ''URLPattern''"
  have unfold: "URLPattern_constructor env args
      = (case compile_components env ?p parsed of
           Inl e \<Rightarrow> Inl e
         | Inr compiled \<Rightarrow>
             Inr \<lparr>instanceof_URLPattern = True, brand_slot = brand,
                  components_slot = Some compiled\<rparr>)"
    by (simp only: URLPattern_constructor_def Let_def assms sum.case prod.case)
  have one: "\<exists>compiled. components_slot this = Some compiled
               \<and> list_all2 (compiled_from env) parsed compiled"
    if "URLPattern_constructor env args = Inr this"
    using that compile_components_ok [of env ?p parsed]
    by (auto simp: unfold split: sum.splits)
  have two: "\<exists>constructed. URLPattern_constructor env args = Inr constructed"
    if "list_all (compiles env) parsed"
    using compile_components_all [OF that, of ?p] by (auto simp: unfold)
  have three: "URLPattern_constructor env args
              = Inl (Exn TypeError (''Failed to construct '' @ quoted ''URLPattern''
                                    @ '': '' @ k @ '' is invalid; '' @ message e))"
    if "parsed = pre @ (k, c) # post" "list_all (compiles env) pre"
       "RegExp env (regexpString c) ''u'' = Inl e"
    using compile_components_first_failure [OF that(2,3), of ?p k post]
    by (simp add: unfold that(1))
  show ?thesis using one two three by blast
qed

lemma books_converted:
  "convert_arguments sample_env (''Failed to construct '' @ quoted ''URLPattern'') books_args
     = Inr (InputString (ascii ''/books/*''), Some (ascii ''https://example.com''))"
  by (simp add: eval_defs books_args_def)

lemma books_parse:
  "urlpatternParse sample_env (InputString (ascii ''/books/*''))
     (Some (ascii ''https://example.com'')) = Inr books_parsed"
  by (simp add: eval_defs books_parsed_def wildcard_parsed_def literal_parsed_def)

lemma books_converted_strict:
  "convert_arguments strict_env (''Failed to construct '' @ quoted ''URLPattern'') books_args
     = Inr (InputString (ascii ''/books/*''), Some (ascii ''https://example.com''))"
  by (simp add: eval_defs books_args_def strict_env_def)

lemma books_parse_strict:
  "urlpatternParse strict_env (InputString (ascii ''/books/*''))
     (Some (ascii ''https://example.com'')) = Inr books_parsed"
  by (simp add: eval_defs books_parsed_def wildcard_parsed_def literal_parsed_def
      strict_env_def)

theorem eager_compilation_witness:
  "list_all (compiles sample_env) books_parsed
   \<and> URLPattern_constructor sample_env books_args = Inr books_pattern
   \<and> list_all2 (compiled_from sample_env) books_parsed (the (components_slot books_pattern))
   \<and> RegExp strict_env (regexpString (literal_parsed (ascii ''https''))) ''u''
       = Inl (Exn SyntaxError ''Invalid regular expression'')
   \<and> URLPattern_constructor strict_env books_args
       = Inl (Exn TypeError (''Failed to construct '' @ quoted ''URLPattern''
                @ '': protocol is invalid; Invalid regular expression''))"
proof -
  have all: "list_all (compiles sample_env) books_parsed"
    by (simp add: books_parsed_def wildcard_parsed_def literal_parsed_def compiles_def
        eval_defs)
  have bad: "RegExp strict_env (regexpString (literal_parsed (ascii ''https''))) ''u''
       = Inl (Exn SyntaxError ''Invalid regular expression'')"
    by (simp add: strict_env_def)
  have split: "books_parsed
                 = [] @ (''protocol'', literal_parsed (ascii ''https'')) # tl books_parsed"
    by (simp add: books_parsed_def)
  have empty: "list_all (compiles strict_env) []" by simp
  from eager_compilation [OF books_converted books_parse, THEN conjunct1, of books_pattern]
    books_constructed
  obtain compiled where "components_slot books_pattern = Some compiled"
    "list_all2 (compiled_from sample_env) books_parsed compiled"
    by blast
  then have ok: "list_all2 (compiled_from sample_env) books_parsed
                   (the (components_slot books_pattern))"
    by simp
  from eager_compilation [OF books_converted_strict books_parse_strict,
      of _ "[]" "''protocol''" "literal_parsed (ascii ''https'')" "tl books_parsed"
         "Exn SyntaxError ''Invalid regular expression''"]
    split empty bad
  have "URLPattern_constructor strict_env books_args
       = Inl (Exn TypeError (''Failed to construct '' @ quoted ''URLPattern''
                @ '': protocol is invalid; Invalid regular expression''))"
    by simp
  with all ok bad books_constructed show ?thesis by simp
qed

section \<open>The loops of test and exec\<close>

lemma constructed_branded:
  "URLPattern_constructor env cargs = Inr this \<Longrightarrow> assertBranded this = Inr ()"
  using constructed_shape [of env cargs this] by (simp add: assertBranded_ok)

lemma convert_arguments_prefix:
  assumes "convert_arguments env p args = Inr conv"
  shows "convert_arguments env p' args = Inr conv"
  using convert_arguments_rel [of env p args p'] assms
  by (cases "convert_arguments env p' args") simp_all

lemma test_run_resolved:
  assumes "assertBranded this = Inr ()"
    and "convert_arguments env p args = Inr (input, baseURL)"
    and "urlpatternProcessMatchInput env input baseURL = Inr (Some (values, inputs))"
  shows "URLPattern_test_run env this args = test_components env (components_slot this) values"
  using assms(1,3) convert_arguments_prefix [OF assms(2)]
  by (simp add: URLPattern_test_run_def Let_def)

lemma exec_resolved:
  assumes "assertBranded this = Inr ()"
    and "convert_arguments env p args = Inr (input, baseURL)"
    and "urlpatternProcessMatchInput env input baseURL = Inr (Some (values, inputs))"
  shows "URLPattern_exec env this args
           = exec_components env (components_slot this) values
               [(''inputs'', InputsField (pop_null inputs))]"
  using assms(1,3) convert_arguments_prefix [OF assms(2)]
  by (simp add: URLPattern_exec_def Let_def)

lemma test_components_all:
  assumes "set (map fst values) \<subseteq> set (map fst cs)"
  shows "snd (test_components env (Some cs) values)
           = Inr (list_all (component_matches env cs) values)"
  using assms
proof (induction "values")
  case Nil
  show ?case by simp
next
  case (Cons kv rest)
  obtain k v where kv: "kv = (k, v)" by (cases kv)
  from Cons.prems have "k \<in> set (map fst cs)" by (simp add: kv)
  then obtain c where c: "map_of cs k = Some c"
    by (metis map_of_eq_None_iff not_Some_eq set_map)
  from Cons have IH: "snd (test_components env (Some cs) rest)
           = Inr (list_all (component_matches env cs) rest)" by simp
  have m: "component_matches env cs (k, v) = (RegExp_exec env (regexp c) v \<noteq> None)"
    using c by (simp add: component_matches_def)
  show ?case
    using c IH by (simp add: kv m RegExp_test_def case_prod_beta)
qed

lemma test_components_tested:
  assumes "list_all (component_matches env cs) pre"
  shows "fst (test_components env (Some cs) (pre @ rest))
           = map fst pre @ fst (test_components env (Some cs) rest)"
  using assms
proof (induction pre)
  case Nil
  show ?case by simp
next
  case (Cons kv pre)
  obtain k v where kv: "kv = (k, v)" by (cases kv)
  from Cons.prems obtain c where "map_of cs k = Some c" "RegExp_exec env (regexp c) v \<noteq> None"
    by (auto simp: kv component_matches_def split: option.splits)
  with Cons show ?case by (simp add: kv RegExp_test_def case_prod_beta)
qed

lemma test_components_stop:
  assumes "map_of cs (fst kv) \<noteq> None" "\<not> component_matches env cs kv"
  shows "test_components env (Some cs) (kv # post) = ([fst kv], Inr False)"
proof -
  obtain k v where kv: "kv = (k, v)" by (cases kv)
  from assms show ?thesis
    by (auto simp: kv component_matches_def RegExp_test_def)
qed

text \<open>
  Claim C7. On an instance made by the constructor whose components have the eight keys,
  for arguments that convert and an input the pattern module resolves to values under the
  eight keys: \<open>test\<close> returns \<open>true\<close> exactly when the compiled expression of every
  component matches its value; when all match, the eight expressions were run in key
  order; and when the component \<open>k\<close> is the first whose expression does not match, \<open>test\<close>
  returns \<open>false\<close> and the expressions that were run are those up to \<open>k\<close>, none after it.
\<close>

theorem test_all_components:
  assumes "URLPattern_constructor env cargs = Inr this"
    and "components_slot this = Some cs"
    and "map fst cs = component_keys"
    and "convert_arguments env p args = Inr (input, baseURL)"
    and "urlpatternProcessMatchInput env input baseURL = Inr (Some (values, inputs))"
    and "map fst values = component_keys"
  shows "URLPattern_test env this args = Inr (list_all (component_matches env cs) values)
       \<and> (list_all (component_matches env cs) values \<longrightarrow>
            URLPattern_test_tested env this args = component_keys)
       \<and> (values = pre @ (k, v) # post \<and> list_all (component_matches env cs) pre
            \<and> \<not> component_matches env cs (k, v) \<longrightarrow>
            URLPattern_test env this args = Inr False
            \<and> URLPattern_test_tested env this args = map fst pre @ [k])"
proof -
  have run: "URLPattern_test_run env this args = test_components env (Some cs) values"
    using test_run_resolved [OF constructed_branded [OF assms(1)] assms(4,5)]
    by (simp add: assms(2))
  have sub: "set (map fst values) \<subseteq> set (map fst cs)"
    by (simp only: assms(3,6) subset_refl)
  have result: "URLPattern_test env this args = Inr (list_all (component_matches env cs) values)"
    using test_components_all [OF sub, of env] by (simp add: URLPattern_test_def run)
  have all: "URLPattern_test_tested env this args = component_keys"
    if "list_all (component_matches env cs) values"
    using test_components_tested [OF that, of "[]"]
    by (simp add: URLPattern_test_tested_def run assms(6))
  have stop: "URLPattern_test env this args = Inr False
            \<and> URLPattern_test_tested env this args = map fst pre @ [k]"
    if v: "values = pre @ (k, v) # post" and pre: "list_all (component_matches env cs) pre"
      and no: "\<not> component_matches env cs (k, v)"
  proof -
    have "k \<in> set (map fst cs)" using sub by (simp add: v)
    then have "map_of cs (fst (k, v)) \<noteq> None"
      by (simp add: map_of_eq_None_iff)
    from test_components_stop [OF this no, of post] test_components_tested [OF pre, of "(k, v) # post"]
    have "URLPattern_test_tested env this args = map fst pre @ [k]"
      by (simp add: URLPattern_test_tested_def run v)
    moreover have "URLPattern_test env this args = Inr False"
      using no by (simp add: result v)
    ultimately show ?thesis by simp
  qed
  show ?thesis using result all stop by blast
qed

lemma books_slot:
  "components_slot books_pattern = Some (the (components_slot books_pattern))"
  "map fst (the (components_slot books_pattern)) = component_keys"
  by (simp_all add: books_pattern_def component_keys_def)

lemma book_converted:
  "convert_arguments sample_env ''test'' book_args
     = Inr (InputString (ascii ''/book''), Some (ascii ''https://example.com''))"
  by (simp add: eval_defs book_args_def)

lemma book_resolved:
  "urlpatternProcessMatchInput sample_env (InputString (ascii ''/book''))
     (Some (ascii ''https://example.com''))
     = Inr (Some (sample_resolve (ascii ''/book''),
                  [JString (ascii ''/book''), JString (ascii ''https://example.com'')]))"
  by (simp add: sample_env_def ascii_def plain_def)

theorem test_all_components_witness:
  "URLPattern_constructor sample_env books_args = Inr books_pattern
   \<and> map fst (the (components_slot books_pattern)) = component_keys
   \<and> map fst (sample_resolve (ascii ''/book'')) = component_keys
   \<and> list_all (component_matches sample_env (the (components_slot books_pattern)))
        (take 5 (sample_resolve (ascii ''/book'')))
   \<and> \<not> component_matches sample_env (the (components_slot books_pattern))
          (''pathname'', ascii ''/book'')
   \<and> URLPattern_test sample_env books_pattern book_args = Inr False
   \<and> URLPattern_test_tested sample_env books_pattern book_args
       = [''protocol'', ''username'', ''password'', ''hostname'', ''port'', ''pathname'']"
proof -
  have keys: "map fst (sample_resolve (ascii ''/book'')) = component_keys"
    by (simp add: sample_resolve_def component_keys_def)
  have split: "sample_resolve (ascii ''/book'')
                 = take 5 (sample_resolve (ascii ''/book''))
                   @ (''pathname'', ascii ''/book'') # drop 6 (sample_resolve (ascii ''/book''))"
    by (simp add: sample_resolve_def against_base_def ascii_def)
  have pre: "list_all (component_matches sample_env (the (components_slot books_pattern)))
        (take 5 (sample_resolve (ascii ''/book'')))"
    by (simp add: books_pattern_def component_matches_def eval_defs)
  have no: "\<not> component_matches sample_env (the (components_slot books_pattern))
          (''pathname'', ascii ''/book'')"
    by (simp add: books_pattern_def component_matches_def eval_defs)
  from test_all_components [OF books_constructed books_slot book_converted book_resolved keys,
      of "take 5 (sample_resolve (ascii ''/book''))" "''pathname''" "ascii ''/book''"
         "drop 6 (sample_resolve (ascii ''/book''))"]
    split pre no
  have "URLPattern_test sample_env books_pattern book_args = Inr False
      \<and> URLPattern_test_tested sample_env books_pattern book_args
          = map fst (take 5 (sample_resolve (ascii ''/book''))) @ [''pathname'']"
    by blast
  then show ?thesis
    using books_constructed books_slot(2) keys pre no by (simp add: sample_resolve_def)
qed

section \<open>The result of exec\<close>

lemma map_of_set_property:
  "map_of (set_property k v ps) k' = (if k' = k then Some v else map_of ps k')"
  by (induction ps) auto

lemma exec_components_frame:
  assumes "exec_components env components values r0 = Inr (Some r)"
    and "k \<notin> set (map fst values)"
  shows "map_of r k = map_of r0 k"
  using assms
proof (induction "values" arbitrary: r0)
  case Nil
  then show ?case by simp
next
  case (Cons kv rest)
  obtain k' v where kv: "kv = (k', v)" by (cases kv)
  from Cons.prems(1) obtain cs c m where
    "components = Some cs" "map_of cs k' = Some c" "RegExp_exec env (regexp c) v = Some m"
    and rest: "exec_components env components rest
                 (set_property k' (ComponentField \<lparr>component_input = v,
                    component_groups = fromEntries (groupEntries_of (groupNameList c) m)\<rparr>) r0)
               = Inr (Some r)"
    by (auto simp: kv Let_def split: option.splits)
  from Cons.prems(2) have "k \<noteq> k'" "k \<notin> set (map fst rest)" by (auto simp: kv)
  with Cons.IH [OF rest] show ?case by (simp add: map_of_set_property)
qed

lemma exec_components_entry:
  assumes "exec_components env (Some cs) values r0 = Inr (Some r)"
    and "distinct (map fst values)"
    and "(k, v) \<in> set values"
  shows "\<exists>c m. map_of cs k = Some c \<and> RegExp_exec env (regexp c) v = Some m
           \<and> map_of r k = Some (ComponentField \<lparr>component_input = v,
                  component_groups = fromEntries (groupEntries_of (groupNameList c) m)\<rparr>)"
  using assms
proof (induction "values" arbitrary: r0)
  case Nil
  then show ?case by simp
next
  case (Cons kv rest)
  obtain k' v' where kv: "kv = (k', v')" by (cases kv)
  from Cons.prems(1) obtain c m where
    c: "map_of cs k' = Some c" and m: "RegExp_exec env (regexp c) v' = Some m"
    and rest: "exec_components env (Some cs) rest
                 (set_property k' (ComponentField \<lparr>component_input = v',
                    component_groups = fromEntries (groupEntries_of (groupNameList c) m)\<rparr>) r0)
               = Inr (Some r)"
    by (auto simp: kv Let_def split: option.splits)
  from Cons.prems(2) have notin: "k' \<notin> set (map fst rest)" by (simp add: kv)
  show ?case
  proof (cases "k = k'")
    case True
    have "(k', v) \<notin> set rest" using notin by (force simp: image_iff)
    with Cons.prems(3) True have "v = v'" by (simp add: kv)
    with exec_components_frame [OF rest notin] True c m show ?thesis
      by (auto simp: map_of_set_property)
  next
    case False
    with Cons.prems(3) have "(k, v) \<in> set rest" by (simp add: kv)
    moreover from Cons.prems(2) have "distinct (map fst rest)" by simp
    ultimately show ?thesis using Cons.IH [OF rest] by blast
  qed
qed

lemma groupEntries_of_zip:
  "groupEntries_of names m = zip names (map (\<lambda>i. capture m (i + 1)) [0..<length names])"
proof (rule nth_equalityI)
  show "length (groupEntries_of names m)
          = length (zip names (map (\<lambda>i. capture m (i + 1)) [0..<length names]))"
    by (simp add: groupEntries_of_def)
next
  fix i
  assume "i < length (groupEntries_of names m)"
  then have i: "i < length names" by (simp add: groupEntries_of_def)
  then have "enumerate 0 names ! i = (i, names ! i)" by (simp add: nth_enumerate_eq)
  then have "groupEntries_of names m ! i = (names ! i, capture m (i + 1))"
    using i by (simp add: groupEntries_of_def)
  then show "groupEntries_of names m ! i
               = zip names (map (\<lambda>i. capture m (i + 1)) [0..<length names]) ! i"
    using i by simp
qed

lemma map_of_rev_distinct:
  "distinct (map fst xs) \<Longrightarrow> map_of (rev xs) = map_of xs"
proof (induction xs)
  case Nil
  show ?case by simp
next
  case (Cons x xs)
  then have IH: "map_of (rev xs) = map_of xs" by simp
  from Cons.prems have "fst x \<notin> dom (map_of xs)"
    by (simp add: dom_map_of_conv_image_fst)
  then show ?case
    by (cases x) (auto simp: IH map_add_def fun_eq_iff split: option.splits)
qed

lemma fromEntries_groups:
  assumes "distinct names" "i < length names"
  shows "fromEntries (groupEntries_of names m) (names ! i) = Some (capture m (i + 1))"
proof -
  let ?ys = "map (\<lambda>i. capture m (i + 1)) [0..<length names]"
  have "distinct (map fst (zip names ?ys))" using assms(1) by simp
  then have "fromEntries (groupEntries_of names m) = map_of (zip names ?ys)"
    by (simp add: fromEntries_def groupEntries_of_zip map_of_rev_distinct)
  moreover have "map_of (zip names ?ys) (names ! i) = Some (?ys ! i)"
    by (rule map_of_zip_nth) (simp_all add: assms)
  ultimately show ?thesis using assms(2) by simp
qed

lemma dom_fromEntries: "dom (fromEntries (groupEntries_of names m)) = set names"
proof -
  have "map fst (groupEntries_of names m) = names"
    by (simp add: groupEntries_of_zip)
  then have "set (map fst (groupEntries_of names m)) = set names"
    by (simp only:)
  then show ?thesis
    by (simp add: fromEntries_def dom_map_of_conv_image_fst)
qed



lemma distinct_component_keys: "distinct component_keys"
  by (simp add: component_keys_def)


lemma path_converted:
  "convert_arguments sample_env ''exec'' path_args
     = Inr (InputString (ascii ''/books/123''), Some (ascii ''https://example.com''))"
  by (simp add: eval_defs path_args_def)

lemma path_resolved:
  "urlpatternProcessMatchInput sample_env (InputString (ascii ''/books/123''))
     (Some (ascii ''https://example.com''))
     = Inr (Some (sample_resolve (ascii ''/books/123''),
                  [JString (ascii ''/books/123''), JString (ascii ''https://example.com'')]))"
  by (simp add: sample_env_def ascii_def plain_def)

lemma path_keys: "map fst (sample_resolve p) = component_keys"
  by (simp add: sample_resolve_def component_keys_def)

lemma path_exec_result:
  "\<exists>result. URLPattern_exec sample_env books_pattern path_args = Inr (Some result)"
  by (simp add: eval_defs path_args_def books_pattern_def)






text \<open>
  Claim C6. On an instance made by the constructor, when the pattern module resolves the
  converted arguments to values under the eight keys and \<open>exec\<close> returns a result: for
  every key \<open>k\<close> with value \<open>v\<close>, the expression of the component \<open>k\<close> matched \<open>v\<close>, and the
  result has under \<open>k\<close> the component result with input \<open>v\<close> and the groups built from the
  component's groupNameList and the match. The groups are defined on the names of the
  list, and, the names being distinct (the pattern module rejects a repeated name), the
  name at index \<open>i\<close> is mapped to capture \<open>i + 1\<close> of the match, or to the empty string when
  that capture is \<open>undefined\<close> or beyond the match array.
\<close>

theorem exec_component_results:
  assumes "URLPattern_constructor env cargs = Inr this"
    and "components_slot this = Some cs"
    and "convert_arguments env p args = Inr (input, baseURL)"
    and "urlpatternProcessMatchInput env input baseURL = Inr (Some (values, inputs))"
    and "map fst values = component_keys"
    and "URLPattern_exec env this args = Inr (Some result)"
    and "(k, v) \<in> set values"
  shows "\<exists>c match.
           map_of cs k = Some c \<and> RegExp_exec env (regexp c) v = Some match
         \<and> map_of result k
             = Some (ComponentField
                      \<lparr>component_input = v,
                       component_groups = fromEntries (groupEntries_of (groupNameList c) match)\<rparr>)
         \<and> dom (fromEntries (groupEntries_of (groupNameList c) match)) = set (groupNameList c)
         \<and> (distinct (groupNameList c) \<longrightarrow>
              (\<forall>i < length (groupNameList c).
                 fromEntries (groupEntries_of (groupNameList c) match) (groupNameList c ! i)
                   = Some (if i + 1 < length match
                           then (case match ! (i + 1) of None \<Rightarrow> [] | Some s \<Rightarrow> s)
                           else [])))"
proof -
  have "exec_components env (Some cs) values [(''inputs'', InputsField (pop_null inputs))]
          = Inr (Some result)"
    using exec_resolved [OF constructed_branded [OF assms(1)] assms(3,4)] assms(2,6) by simp
  moreover have "distinct (map fst values)"
    by (simp add: assms(5) distinct_component_keys)
  ultimately obtain c m where
    c: "map_of cs k = Some c" and m: "RegExp_exec env (regexp c) v = Some m"
    and r: "map_of result k
             = Some (ComponentField
                      \<lparr>component_input = v,
                       component_groups = fromEntries (groupEntries_of (groupNameList c) m)\<rparr>)"
    using exec_components_entry [OF _ _ assms(7)] by blast
  have "fromEntries (groupEntries_of (groupNameList c) m) (groupNameList c ! i)
          = Some (if i + 1 < length m
                  then (case m ! (i + 1) of None \<Rightarrow> [] | Some s \<Rightarrow> s) else [])"
    if "distinct (groupNameList c)" "i < length (groupNameList c)" for i
    using fromEntries_groups [OF that, of m] by (simp add: capture_def)
  with c m r dom_fromEntries [of "groupNameList c" m] show ?thesis by blast
qed

theorem exec_component_results_witness:
  "URLPattern_constructor sample_env books_args = Inr books_pattern
   \<and> map fst (sample_resolve (ascii ''/books/123'')) = component_keys
   \<and> (''pathname'', ascii ''/books/123'') \<in> set (sample_resolve (ascii ''/books/123''))
   \<and> (case URLPattern_exec sample_env books_pattern path_args of
        Inl e \<Rightarrow> False
      | Inr None \<Rightarrow> False
      | Inr (Some result) \<Rightarrow>
          (case map_of result ''pathname'' of
             None \<Rightarrow> False
           | Some (InputsField i) \<Rightarrow> False
           | Some (ComponentField r) \<Rightarrow>
               component_input r = ascii ''/books/123''
               \<and> component_groups r (ascii ''0'') = Some (ascii ''123'')))"
proof -
  have mem: "(''pathname'', ascii ''/books/123'') \<in> set (sample_resolve (ascii ''/books/123''))"
    by (simp add: sample_resolve_def against_base_def ascii_def)
  from path_exec_result obtain result where
    r: "URLPattern_exec sample_env books_pattern path_args = Inr (Some result)" ..
  from exec_component_results [OF books_constructed books_slot(1) path_converted path_resolved
      path_keys r mem]
  obtain c match where
    c: "map_of (the (components_slot books_pattern)) ''pathname'' = Some c"
    and m: "RegExp_exec sample_env (regexp c) (ascii ''/books/123'') = Some match"
    and f: "map_of result ''pathname''
             = Some (ComponentField
                      \<lparr>component_input = ascii ''/books/123'',
                       component_groups = fromEntries (groupEntries_of (groupNameList c) match)\<rparr>)"
    and g: "distinct (groupNameList c) \<longrightarrow>
              (\<forall>i < length (groupNameList c).
                 fromEntries (groupEntries_of (groupNameList c) match) (groupNameList c ! i)
                   = Some (if i + 1 < length match
                           then (case match ! (i + 1) of None \<Rightarrow> [] | Some s \<Rightarrow> s)
                           else []))"
    by blast
  from c have c': "groupNameList c = [ascii ''0'']" "regexp c = Prefix (ascii ''/books/'')"
    by (auto simp: books_pattern_def)
  from m have m': "match = [Some (ascii ''/books/123''), Some (ascii ''123'')]"
    by (auto simp: c' sample_env_def ascii_def split: if_splits)
  from g have "fromEntries (groupEntries_of (groupNameList c) match) (ascii ''0'')
                 = Some (ascii ''123'')"
    by (simp add: c' m')
  with f r path_keys mem books_constructed show ?thesis
    by simp
qed

section \<open>Calls leave the instance as it is\<close>

lemma set_property_same: "map_of cs k = Some c \<Longrightarrow> set_property k c cs = cs"
  by (induction cs) (auto split: if_splits)

lemma test_components_state_None:
  "test_components_state env None values = (snd (test_components env None values), None)"
  by (cases "values") auto

lemma exec_components_state_None:
  "exec_components_state env None values result = (exec_components env None values result, None)"
  by (cases "values") auto

lemma test_components_state_frame:
  assumes "\<forall>kc \<in> set cs. \<forall>s. RegExp_after env (regexp (snd kc)) s = regexp (snd kc)"
  shows "test_components_state env (Some cs) values
           = (snd (test_components env (Some cs) values), Some cs)"
proof (induction "values")
  case Nil
  show ?case by simp
next
  case (Cons kv rest)
  obtain k v where kv: "kv = (k, v)" by (cases kv)
  show ?case
  proof (cases "map_of cs k")
    case None
    then show ?thesis by (simp add: kv)
  next
    case (Some c)
    then have "(k, c) \<in> set cs" by (rule map_of_SomeD)
    with assms have "RegExp_after env (regexp c) v = regexp c" by auto
    then have "set_property k (c\<lparr>regexp := RegExp_after env (regexp c) v\<rparr>) cs = cs"
      using Some by (simp add: set_property_same)
    with Some Cons show ?thesis by (simp add: kv Let_def case_prod_beta)
  qed
qed

lemma exec_components_state_frame:
  assumes "\<forall>kc \<in> set cs. \<forall>s. RegExp_after env (regexp (snd kc)) s = regexp (snd kc)"
  shows "exec_components_state env (Some cs) values result
           = (exec_components env (Some cs) values result, Some cs)"
proof (induction "values" arbitrary: result)
  case Nil
  show ?case by simp
next
  case (Cons kv rest)
  obtain k v where kv: "kv = (k, v)" by (cases kv)
  show ?case
  proof (cases "map_of cs k")
    case None
    then show ?thesis by (simp add: kv)
  next
    case (Some c)
    then have "(k, c) \<in> set cs" by (rule map_of_SomeD)
    with assms have "RegExp_after env (regexp c) v = regexp c" by auto
    then have same: "set_property k (c\<lparr>regexp := RegExp_after env (regexp c) v\<rparr>) cs = cs"
      using Some by (simp add: set_property_same)
    show ?thesis
    proof (cases "RegExp_exec env (regexp c) v")
      case None
      with Some same show ?thesis by (simp add: kv Let_def)
    next
      case m: (Some m)
      with Some same Cons show ?thesis by (simp add: kv Let_def)
    qed
  qed
qed

lemma constructed_flag_u:
  assumes "URLPattern_constructor env cargs = Inr this"
  shows "\<exists>cs. components_slot this = Some cs
           \<and> (\<forall>kc \<in> set cs. \<exists>src. RegExp env src ''u'' = Inr (regexp (snd kc)))"
proof -
  from assms obtain p parsed cs where
    c: "compile_components env p parsed = Inr cs" and s: "components_slot this = Some cs"
    by (auto simp: URLPattern_constructor_def Let_def split: sum.splits prod.splits)
  have "\<exists>src. RegExp env src ''u'' = Inr (regexp (snd kc))" if "kc \<in> set cs" for kc
  proof -
    from that obtain i where i: "i < length cs" "cs ! i = kc"
      by (auto simp: in_set_conv_nth)
    with compile_components_ok [OF c] have "compiled_from env (parsed ! i) kc"
      by (auto simp: list_all2_conv_all_nth)
    then show ?thesis by (auto simp: compiled_from_def)
  qed
  with s show ?thesis by blast
qed

lemma test_state_frame:
  assumes "components_slot this = Some cs"
    and "\<forall>kc \<in> set cs. \<forall>s. RegExp_after env (regexp (snd kc)) s = regexp (snd kc)"
  shows "URLPattern_test_state env this args = (URLPattern_test env this args, this)"
  by (simp add: URLPattern_test_state_def URLPattern_test_def URLPattern_test_run_def Let_def
      assms(1) test_components_state_frame [OF assms(2)]
      split: sum.splits option.splits prod.splits)

lemma exec_state_frame:
  assumes "components_slot this = Some cs"
    and "\<forall>kc \<in> set cs. \<forall>s. RegExp_after env (regexp (snd kc)) s = regexp (snd kc)"
  shows "URLPattern_exec_state env this args = (URLPattern_exec env this args, this)"
  by (simp add: URLPattern_exec_state_def URLPattern_exec_def Let_def
      assms(1) exec_components_state_frame [OF assms(2)]
      split: sum.splits option.splits prod.splits)

lemma invoke_all_frame:
  assumes "components_slot this = Some cs"
    and "\<forall>kc \<in> set cs. \<forall>s. RegExp_after env (regexp (snd kc)) s = regexp (snd kc)"
  shows "invoke_all env this calls = (map (\<lambda>c. fst (invoke env this c)) calls, this)"
proof (induction calls)
  case Nil
  show ?case by simp
next
  case (Cons c calls)
  then show ?case
    by (cases c) (simp_all add: test_state_frame [OF assms] exec_state_frame [OF assms])
qed

text \<open>
  Claim C8. Take an instance made by the constructor and an engine that, as ECMAScript
  has it, writes nothing to a RegExp object compiled with the flag \<open>u\<close> alone when \<open>exec\<close>
  or \<open>test\<close> is called on it. After any sequence of \<open>test\<close> and \<open>exec\<close> calls, each
  starting from the instance the call before left, the instance is the one the sequence
  started from and the eight getters return what they returned before; each call of the
  sequence had the outcome it has on the initial instance, which is the outcome of
  \<open>URLPattern_test\<close> or \<open>URLPattern_exec\<close> there; and a further sequence of calls has the
  outcomes it has on the initial instance.
\<close>

theorem test_exec_no_mutation:
  assumes "URLPattern_constructor env cargs = Inr this"
    and "\<forall>src r s. RegExp env src ''u'' = Inr r \<longrightarrow> RegExp_after env r s = r"
  shows "snd (invoke_all env this calls) = this
       \<and> getters (snd (invoke_all env this calls)) = getters this
       \<and> fst (invoke_all env this calls) = map (\<lambda>c. fst (invoke env this c)) calls
       \<and> fst (invoke env this (Test args)) = TestOutcome (URLPattern_test env this args)
       \<and> fst (invoke env this (Exec args)) = ExecOutcome (URLPattern_exec env this args)
       \<and> fst (invoke_all env (snd (invoke_all env this calls)) calls')
           = fst (invoke_all env this calls')"
proof -
  from constructed_flag_u [OF assms(1)] obtain cs where
    slot: "components_slot this = Some cs"
    and u: "\<forall>kc \<in> set cs. \<exists>src. RegExp env src ''u'' = Inr (regexp (snd kc))"
    by blast
  from u assms(2)
  have quiet: "\<forall>kc \<in> set cs. \<forall>s. RegExp_after env (regexp (snd kc)) s = regexp (snd kc)"
    by blast
  show ?thesis
    by (simp add: invoke_all_frame [OF slot quiet] test_state_frame [OF slot quiet]
        exec_state_frame [OF slot quiet])
qed

lemma sample_engine_quiet: "RegExp_after sample_env = (\<lambda>r s. r)"
  by (simp add: sample_env_def)

theorem test_exec_no_mutation_witness:
  "URLPattern_constructor sample_env books_args = Inr books_pattern
   \<and> RegExp_after sample_env = (\<lambda>r s. r)
   \<and> snd (invoke_all sample_env books_pattern [Test path_args, Exec path_args]) = books_pattern
   \<and> getters (snd (invoke_all sample_env books_pattern [Test path_args, Exec path_args]))
       = getters books_pattern
   \<and> fst (invoke sample_env books_pattern (Test path_args)) = TestOutcome (Inr True)
   \<and> fst (invoke_all sample_env
            (snd (invoke_all sample_env books_pattern [Test path_args, Exec path_args]))
            [Test path_args])
       = [TestOutcome (Inr True)]"
proof -
  have quiet: "\<forall>src r s. RegExp sample_env src ''u'' = Inr r \<longrightarrow> RegExp_after sample_env r s = r"
    by (simp add: sample_engine_quiet)
  from test_exec_no_mutation [OF books_constructed quiet,
      of "[Test path_args, Exec path_args]" path_args "[Test path_args]"]
  have "snd (invoke_all sample_env books_pattern [Test path_args, Exec path_args]) = books_pattern
      \<and> fst (invoke sample_env books_pattern (Test path_args))
          = TestOutcome (URLPattern_test sample_env books_pattern path_args)"
    by blast
  then show ?thesis
    using books_constructed sample_engine_quiet
    by (simp add: books_test_true case_prod_beta)
qed

text \<open>With an engine that writes to the RegExp object, the same instance is changed by a
  call of \<open>test\<close>: the model does let the methods change the instance.\<close>

lemma engine_write_changes_instance:
  "URLPattern_constructor writing_env books_args = Inr books_pattern
   \<and> snd (invoke writing_env books_pattern (Test path_args)) \<noteq> books_pattern"
proof -
  have "URLPattern_constructor writing_env books_args = Inr books_pattern"
    by (simp add: eval_defs writing_env_def books_args_def books_pattern_def)
  moreover have "snd (invoke writing_env books_pattern (Test path_args)) \<noteq> books_pattern"
    by (simp add: URLPattern_test_state_def eval_defs writing_env_def path_args_def
        books_pattern_def case_prod_beta)
  ultimately show ?thesis by simp
qed

end
